theory Spec2Isabelle
  imports Complex_Main "HOL-Library.AList"
begin

text \<open>
  A model of the two stateful cores of the cinema booking demonstration: the booking
  lifecycle of \<open>src/booking/BookingStatus.ts\<close> (a context object and six state classes)
  and the seat selection of \<open>src/seat/SeatSelection.ts\<close> over \<open>src/models/Seat.ts\<close> (a
  seat registry, three command classes and the invoker with its undo and redo stacks).
  Methods that only format text for display are left out, as is the facade
  \<open>SeatSelectionController\<close>, which creates one command per call and hands it to the
  invoker.
\<close>

section \<open>Numbers, strings and the clock\<close>

text \<open>
  A TypeScript \<open>number\<close> that holds money (a price, a total, a paid amount) is modelled
  as a rational: the finite values, \<open>NaN\<close> and the infinities being outside the model.
  Sums and comparisons are carried out exactly. The one product a property below
  depends on, the 80% of a refund, is rounded to double precision as JavaScript rounds
  it. A \<open>Date\<close> is a number of milliseconds (\<open>nat\<close>); every operation that reads the
  clock takes the instant \<open>now\<close> as an argument and reads it once. Console output is
  not part of the model.
\<close>

type_synonym number = rat
type_synonym Date = nat

text \<open>\<open>Math.round\<close>: the nearest integer, a tie going up.\<close>

definition Math_round :: "number \<Rightarrow> number" where
  "Math_round x = of_int \<lfloor>x + 1 / 2\<rfloor>"

subsection \<open>Products in double precision\<close>

text \<open>
  JavaScript's \<open>*\<close> gives the exact product rounded to the nearest double (IEEE 754
  binary64): 53 significant bits, a tie going to the even significand, and below
  \<open>2^(-1022)\<close> the fixed spacing \<open>2^(-1074)\<close> of the subnormal numbers. A double
  is a rational that \<open>toDouble\<close> leaves as it is. Overflow is outside the model; a
  product by 0.8 cannot overflow.
\<close>

text \<open>\<open>pow2 k\<close> is \<open>2^k\<close> for an integer \<open>k\<close> of either sign.\<close>

definition pow2 :: "int \<Rightarrow> rat" where
  "pow2 k = (if 0 \<le> k then 2 ^ nat k else 1 / 2 ^ nat (- k))"

text \<open>The number of binary digits of a positive integer.\<close>

function bitLength :: "int \<Rightarrow> nat" where
  "bitLength n = (if n \<le> 0 then 0 else Suc (bitLength (n div 2)))"
  by pat_completeness auto
termination
  by (relation "measure nat") auto

declare bitLength.simps [simp del]

text \<open>The binary exponent of a non-zero \<open>x\<close>: the \<open>e\<close> with
  \<open>2^e \<le> |x| < 2^(e+1)\<close>.\<close>

definition exponent :: "rat \<Rightarrow> int" where
  "exponent x =
     (if 1 \<le> \<bar>x\<bar> then int (bitLength \<lfloor>\<bar>x\<bar>\<rfloor>) - 1
      else (let m = int (bitLength \<lfloor>1 / \<bar>x\<bar>\<rfloor>) - 1
            in if pow2 (- m) \<le> \<bar>x\<bar> then - m else - m - 1))"

text \<open>The nearest integer, a tie going to the even one.\<close>

definition roundHalfEven :: "rat \<Rightarrow> int" where
  "roundHalfEven x =
     (let n = \<lfloor>x\<rfloor>; r = x - of_int n
      in if r < 1 / 2 then n else if 1 / 2 < r then n + 1 else if even n then n else n + 1)"

text \<open>The nearest double: \<open>x\<close> is rounded to a multiple of the spacing of the
  doubles around it.\<close>

definition toDouble :: "rat \<Rightarrow> rat" where
  "toDouble x =
     (if x = 0 then 0
      else (let e = max (exponent x) (- 1022); ulp = pow2 (e - 52)
            in of_int (roundHalfEven (x / ulp)) * ulp))"

text \<open>The literal \<open>0.8\<close>: the double nearest to eight tenths.\<close>

definition double_0_8 :: number where
  "double_0_8 = 3602879701896397 / 4503599627370496"

text \<open>\<open>a * b\<close> on two doubles.\<close>

definition multiply :: "number \<Rightarrow> number \<Rightarrow> number" where
  "multiply a b = toDouble (a * b)"

text \<open>\<open>Number.prototype.toString(radix)\<close> on a non-negative integer, for the two
  radices the source uses (10 in template literals, 36 in identifiers).\<close>

definition digits :: string where
  "digits = ''0123456789abcdefghijklmnopqrstuvwxyz''"

function toString_radix :: "nat \<Rightarrow> nat \<Rightarrow> string" where
  "toString_radix radix n =
     (if radix < 2 \<or> n < radix then [digits ! n]
      else toString_radix radix (n div radix) @ [digits ! (n mod radix)])"
  by pat_completeness auto
termination
  by (relation "measure (\<lambda>(radix, n). n)") auto

definition toUpperCase_char :: "char \<Rightarrow> char" where
  "toUpperCase_char c =
     (case map_of (zip ''abcdefghijklmnopqrstuvwxyz'' ''ABCDEFGHIJKLMNOPQRSTUVWXYZ'') c of
        None \<Rightarrow> c | Some u \<Rightarrow> u)"

definition toUpperCase :: "string \<Rightarrow> string" where
  "toUpperCase s = map toUpperCase_char s"

section \<open>Booking lifecycle (State pattern)\<close>

text \<open>The six concrete state classes carry no fields; a state object is its class.\<close>

datatype BookingState =
  DraftState | PendingState | PaidState | ConfirmedState | CompletedState | CancelledState

fun getName :: "BookingState \<Rightarrow> string" where
  "getName DraftState = ''Draft''"
| "getName PendingState = ''Pending''"
| "getName PaidState = ''Paid''"
| "getName ConfirmedState = ''Confirmed''"
| "getName CompletedState = ''Completed''"
| "getName CancelledState = ''Cancelled''"

fun canModify :: "BookingState \<Rightarrow> bool" where
  "canModify DraftState = True"
| "canModify PendingState = False"
| "canModify PaidState = False"
| "canModify ConfirmedState = False"
| "canModify CompletedState = False"
| "canModify CancelledState = False"

fun canPay :: "BookingState \<Rightarrow> bool" where
  "canPay DraftState = False"
| "canPay PendingState = True"
| "canPay PaidState = False"
| "canPay ConfirmedState = False"
| "canPay CompletedState = False"
| "canPay CancelledState = False"

fun canCancel :: "BookingState \<Rightarrow> bool" where
  "canCancel DraftState = True"
| "canCancel PendingState = True"
| "canCancel PaidState = False"
| "canCancel ConfirmedState = False"
| "canCancel CompletedState = False"
| "canCancel CancelledState = False"

fun canRefund :: "BookingState \<Rightarrow> bool" where
  "canRefund DraftState = False"
| "canRefund PendingState = False"
| "canRefund PaidState = True"
| "canRefund ConfirmedState = True"
| "canRefund CompletedState = False"
| "canRefund CancelledState = False"

record StateHistoryEntry =
  fromState :: string
  toState :: string
  timestamp :: Date

record BookingContext =
  state :: BookingState
  bookingId :: string
  customerName :: string
  movieTitle :: string
  seats :: "string list"
  totalAmount :: number
  paidAmount :: number
  transactionId :: "string option"
  stateHistory :: "StateHistoryEntry list"
  createdAt :: Date
  updatedAt :: Date

text \<open>\<open>generateBookingId\<close>: \<open>random\<close> is the four-character string that
  \<open>Math.random().toString(36).substring(2, 6)\<close> produced.\<close>

definition generateBookingId :: "Date \<Rightarrow> string \<Rightarrow> string" where
  "generateBookingId now random =
     toUpperCase (''BKG-'' @ toString_radix 36 now @ ''-'' @ random)"

definition logStateChange :: "string \<Rightarrow> Date \<Rightarrow> BookingContext \<Rightarrow> BookingContext" where
  "logStateChange previousState now ctx =
     ctx\<lparr>stateHistory := stateHistory ctx @
       [\<lparr>fromState = previousState, toState = getName (state ctx), timestamp = now\<rparr>]\<rparr>"

text \<open>The constructor. An absent or empty \<open>bookingId\<close> is falsy and replaced by a
  generated one.\<close>

definition BookingContext_new ::
  "string \<Rightarrow> string \<Rightarrow> string option \<Rightarrow> Date \<Rightarrow> string \<Rightarrow> BookingContext" where
  "BookingContext_new customer movie bookingIdArg now random =
     logStateChange ''Initial'' now
       \<lparr>state = DraftState,
        bookingId = (case bookingIdArg of
                       None \<Rightarrow> generateBookingId now random
                     | Some b \<Rightarrow> if b = [] then generateBookingId now random else b),
        customerName = customer,
        movieTitle = movie,
        seats = [],
        totalAmount = 0,
        paidAmount = 0,
        transactionId = None,
        stateHistory = [],
        createdAt = now,
        updatedAt = now\<rparr>"

definition setState :: "BookingState \<Rightarrow> Date \<Rightarrow> BookingContext \<Rightarrow> BookingContext" where
  "setState s now ctx =
     (let previousState = getName (state ctx)
      in logStateChange previousState now (ctx\<lparr>state := s, updatedAt := now\<rparr>))"

definition setPaidAmount :: "number \<Rightarrow> Date \<Rightarrow> BookingContext \<Rightarrow> BookingContext" where
  "setPaidAmount amount now ctx = ctx\<lparr>paidAmount := amount, updatedAt := now\<rparr>"

definition setTransactionId :: "string \<Rightarrow> Date \<Rightarrow> BookingContext \<Rightarrow> BookingContext" where
  "setTransactionId i now ctx = ctx\<lparr>transactionId := Some i, updatedAt := now\<rparr>"

subsection \<open>The methods of the state classes\<close>

text \<open>Each method of the \<open>BookingState\<close> interface is one function, with one equation
  per implementing class. A method that only logs returns the booking as it was.\<close>

fun BookingState_addSeat :: "BookingState \<Rightarrow> BookingContext \<Rightarrow> BookingContext" where
  "BookingState_addSeat DraftState ctx = ctx"
| "BookingState_addSeat PendingState ctx = ctx"
| "BookingState_addSeat PaidState ctx = ctx"
| "BookingState_addSeat ConfirmedState ctx = ctx"
| "BookingState_addSeat CompletedState ctx = ctx"
| "BookingState_addSeat CancelledState ctx = ctx"

fun BookingState_proceedToPayment ::
  "BookingState \<Rightarrow> BookingContext \<Rightarrow> Date \<Rightarrow> BookingContext" where
  "BookingState_proceedToPayment DraftState ctx now =
     (if length (seats ctx) = 0 then ctx else setState PendingState now ctx)"
| "BookingState_proceedToPayment PendingState ctx now = ctx"
| "BookingState_proceedToPayment PaidState ctx now = ctx"
| "BookingState_proceedToPayment ConfirmedState ctx now = ctx"
| "BookingState_proceedToPayment CompletedState ctx now = ctx"
| "BookingState_proceedToPayment CancelledState ctx now = ctx"

fun BookingState_pay ::
  "BookingState \<Rightarrow> BookingContext \<Rightarrow> number \<Rightarrow> Date \<Rightarrow> BookingContext" where
  "BookingState_pay DraftState ctx amount now = ctx"
| "BookingState_pay PendingState ctx amount now =
     (let required = totalAmount ctx
      in if amount < required then ctx
         else setState PaidState now
                (setTransactionId (''TXN-'' @ toUpperCase (toString_radix 36 now)) now
                  (setPaidAmount amount now ctx)))"
| "BookingState_pay PaidState ctx amount now = ctx"
| "BookingState_pay ConfirmedState ctx amount now = ctx"
| "BookingState_pay CompletedState ctx amount now = ctx"
| "BookingState_pay CancelledState ctx amount now = ctx"

fun BookingState_confirm :: "BookingState \<Rightarrow> BookingContext \<Rightarrow> Date \<Rightarrow> BookingContext" where
  "BookingState_confirm DraftState ctx now = ctx"
| "BookingState_confirm PendingState ctx now = ctx"
| "BookingState_confirm PaidState ctx now = setState ConfirmedState now ctx"
| "BookingState_confirm ConfirmedState ctx now = ctx"
| "BookingState_confirm CompletedState ctx now = ctx"
| "BookingState_confirm CancelledState ctx now = ctx"

fun BookingState_complete :: "BookingState \<Rightarrow> BookingContext \<Rightarrow> Date \<Rightarrow> BookingContext" where
  "BookingState_complete DraftState ctx now = ctx"
| "BookingState_complete PendingState ctx now = ctx"
| "BookingState_complete PaidState ctx now = ctx"
| "BookingState_complete ConfirmedState ctx now = setState CompletedState now ctx"
| "BookingState_complete CompletedState ctx now = ctx"
| "BookingState_complete CancelledState ctx now = ctx"

fun BookingState_cancel :: "BookingState \<Rightarrow> BookingContext \<Rightarrow> Date \<Rightarrow> BookingContext" where
  "BookingState_cancel DraftState ctx now = setState CancelledState now ctx"
| "BookingState_cancel PendingState ctx now = setState CancelledState now ctx"
| "BookingState_cancel PaidState ctx now = ctx"
| "BookingState_cancel ConfirmedState ctx now = ctx"
| "BookingState_cancel CompletedState ctx now = ctx"
| "BookingState_cancel CancelledState ctx now = ctx"

text \<open>\<open>refund\<close> returns nothing in the source; the amount it computes is only printed.
  The model returns it beside the booking: \<open>Some a\<close> when the method announces a refund
  of \<open>a\<close>, \<open>None\<close> when it refuses.\<close>

fun BookingState_refund ::
  "BookingState \<Rightarrow> BookingContext \<Rightarrow> Date \<Rightarrow> BookingContext \<times> number option" where
  "BookingState_refund DraftState ctx now = (ctx, None)"
| "BookingState_refund PendingState ctx now = (ctx, None)"
| "BookingState_refund PaidState ctx now =
     (setState CancelledState now ctx, Some (paidAmount ctx))"
| "BookingState_refund ConfirmedState ctx now =
     (let refundAmount = Math_round (multiply (paidAmount ctx) double_0_8)
      in (setState CancelledState now ctx, Some refundAmount))"
| "BookingState_refund CompletedState ctx now = (ctx, None)"
| "BookingState_refund CancelledState ctx now = (ctx, None)"

subsection \<open>The delegating methods of BookingContext\<close>

definition addSeat :: "BookingContext \<Rightarrow> string \<Rightarrow> number \<Rightarrow> BookingContext" where
  "addSeat ctx seatCode price =
     (let ctx1 = BookingState_addSeat (state ctx) ctx
      in if canModify (state ctx1)
         then ctx1\<lparr>seats := seats ctx1 @ [seatCode],
                        totalAmount := totalAmount ctx1 + price\<rparr>
         else ctx1)"

definition proceedToPayment :: "BookingContext \<Rightarrow> Date \<Rightarrow> BookingContext" where
  "proceedToPayment ctx now = BookingState_proceedToPayment (state ctx) ctx now"

definition pay :: "BookingContext \<Rightarrow> number \<Rightarrow> Date \<Rightarrow> BookingContext" where
  "pay ctx amount now = BookingState_pay (state ctx) ctx amount now"

definition confirm :: "BookingContext \<Rightarrow> Date \<Rightarrow> BookingContext" where
  "confirm ctx now = BookingState_confirm (state ctx) ctx now"

definition complete :: "BookingContext \<Rightarrow> Date \<Rightarrow> BookingContext" where
  "complete ctx now = BookingState_complete (state ctx) ctx now"

definition cancel :: "BookingContext \<Rightarrow> Date \<Rightarrow> BookingContext" where
  "cancel ctx now = BookingState_cancel (state ctx) ctx now"

definition refund :: "BookingContext \<Rightarrow> Date \<Rightarrow> BookingContext \<times> number option" where
  "refund ctx now = BookingState_refund (state ctx) ctx now"

subsection \<open>Sequences of calls on one booking\<close>

text \<open>A caller of the booking: any of the public mutating methods of
  \<open>BookingContext\<close>, each with the instant at which it runs.\<close>

datatype BookingCall =
    AddSeat string number
  | ProceedToPayment
  | Pay number
  | Confirm
  | Complete
  | Cancel
  | Refund
  | SetState BookingState
  | SetPaidAmount number
  | SetTransactionId string

fun call :: "BookingContext \<Rightarrow> BookingCall \<times> Date \<Rightarrow> BookingContext" where
  "call ctx (AddSeat seatCode price, now) = addSeat ctx seatCode price"
| "call ctx (ProceedToPayment, now) = proceedToPayment ctx now"
| "call ctx (Pay amount, now) = pay ctx amount now"
| "call ctx (Confirm, now) = confirm ctx now"
| "call ctx (Complete, now) = complete ctx now"
| "call ctx (Cancel, now) = cancel ctx now"
| "call ctx (Refund, now) = fst (refund ctx now)"
| "call ctx (SetState s, now) = setState s now ctx"
| "call ctx (SetPaidAmount amount, now) = setPaidAmount amount now ctx"
| "call ctx (SetTransactionId i, now) = setTransactionId i now ctx"

definition calls :: "BookingContext \<Rightarrow> (BookingCall \<times> Date) list \<Rightarrow> BookingContext" where
  "calls ctx cs = foldl call ctx cs"

text \<open>A transition log is a connectedLog chain when each entry starts where the entry
  before it ended.\<close>

fun connectedLog :: "StateHistoryEntry list \<Rightarrow> bool" where
  "connectedLog [] = True"
| "connectedLog [e] = True"
| "connectedLog (e1 # e2 # es) = (fromState e2 = toState e1 \<and> connectedLog (e2 # es))"

text \<open>The booking of the repository's own scenario, with the seat price as a
  parameter: one seat is added, then the booking is taken to Pending, paid in full,
  confirmed and completed.\<close>

definition draftBooking :: "number \<Rightarrow> BookingContext" where
  "draftBooking price =
     addSeat (BookingContext_new ''John Doe'' ''Avatar 2'' (Some ''BKG-1'') 0 []) ''A1'' price"

definition pendingBooking :: "number \<Rightarrow> BookingContext" where
  "pendingBooking price = proceedToPayment (draftBooking price) 1"

definition paidBooking :: "number \<Rightarrow> BookingContext" where
  "paidBooking price = pay (pendingBooking price) price 2"

definition confirmedBooking :: "number \<Rightarrow> BookingContext" where
  "confirmedBooking price = confirm (paidBooking price) 3"

definition completedBooking :: "number \<Rightarrow> BookingContext" where
  "completedBooking price = complete (confirmedBooking price) 4"

definition cancelledBooking :: "number \<Rightarrow> BookingContext" where
  "cancelledBooking price = cancel (pendingBooking price) 2"


text \<open>What every call keeps true of the transition log: it starts with the entry
  written by the constructor, is connected, and ends in the current state.\<close>

definition logInv :: "BookingContext \<Rightarrow> bool" where
  "logInv ctx \<longleftrightarrow>
     stateHistory ctx \<noteq> [] \<and>
     fromState (hd (stateHistory ctx)) = ''Initial'' \<and>
     toState (hd (stateHistory ctx)) = ''Draft'' \<and>
     connectedLog (stateHistory ctx) \<and>
     toState (last (stateHistory ctx)) = getName (state ctx)"

section \<open>Seats and the seat registry (receiver of the commands)\<close>

datatype SeatStatus = AVAILABLE | SELECTED | BOOKED | UNAVAILABLE

datatype SeatType = REGULAR | VIP | COUPLE | WHEELCHAIR

text \<open>\<open>SeatImpl\<close>. The fields \<open>id\<close> and \<open>type\<close> carry a prime, the names being taken
  in HOL. \<open>number\<close> is the seat's position in its row, a positive integer.\<close>

record Seat =
  id' :: string
  row :: string
  number :: nat
  type' :: SeatType
  status :: SeatStatus
  price :: number

definition getCode :: "Seat \<Rightarrow> string" where
  "getCode seat = row seat @ toString_radix 10 (number seat)"

definition isAvailable :: "Seat \<Rightarrow> bool" where
  "isAvailable seat \<longleftrightarrow> status seat = AVAILABLE"

text \<open>
  A JavaScript \<open>Map\<close> keeps its entries in insertion order and holds a key once: it is
  an association list whose \<open>set\<close> writes over the entry of a key already there, in
  place, and appends a new key. A JavaScript \<open>Set\<close> is a list in insertion order
  without repetition.
\<close>

type_synonym ('k, 'v) Map = "('k \<times> 'v) list"
type_synonym 'a Set = "'a list"

definition Map_get :: "('k, 'v) Map \<Rightarrow> 'k \<Rightarrow> 'v option" where
  "Map_get m k = map_of m k"

definition Map_set :: "'k \<Rightarrow> 'v \<Rightarrow> ('k, 'v) Map \<Rightarrow> ('k, 'v) Map" where
  "Map_set k v m = AList.update k v m"

definition Set_add :: "'a \<Rightarrow> 'a Set \<Rightarrow> 'a Set" where
  "Set_add x xs = (if x \<in> set xs then xs else xs @ [x])"

definition Set_delete :: "'a \<Rightarrow> 'a Set \<Rightarrow> 'a Set" where
  "Set_delete x xs = filter (\<lambda>y. y \<noteq> x) xs"

record SeatManager =
  seats :: "(string, Seat) Map"
  selectedSeats :: "string Set"

definition SeatManager_new :: SeatManager where
  "SeatManager_new = \<lparr>seats = [], selectedSeats = []\<rparr>"

definition rowLabels :: string where
  "rowLabels = ''ABCDEFGHIJKLMNOPQRSTUVWXYZ''"

text \<open>\<open>rowLabels[r]\<close>; past the end of the string the read gives \<open>undefined\<close>, which
  the template literal of the seat code prints as the word.\<close>

definition rowLabelAt :: "nat \<Rightarrow> string" where
  "rowLabelAt r = (if r < length rowLabels then [rowLabels ! r] else ''undefined'')"

text \<open>The body of the inner loop of \<open>initializeSeats\<close>, for row index \<open>r\<close> and seat
  number \<open>s\<close>. \<open>isBooked\<close> is the outcome of the draw \<open>Math.random() < 0.15\<close> for this
  seat.\<close>

definition initializeSeat ::
  "string \<Rightarrow> nat \<Rightarrow> number \<Rightarrow> nat \<Rightarrow> nat \<Rightarrow> bool \<Rightarrow> (string, Seat) Map \<Rightarrow> (string, Seat) Map" where
  "initializeSeat showtimeId rows basePrice r s isBooked m =
     (let rowLabel = rowLabelAt r;
          seatCode = rowLabel @ toString_radix 10 s;
          seatId = showtimeId @ ''-'' @ seatCode;
          seatType = (if int r \<ge> int rows - 2 then VIP else REGULAR);
          price = (if seatType = VIP then basePrice * (15 / 10) else basePrice)
      in Map_set seatCode
           \<lparr>id' = seatId, row = rowLabel, number = s, type' = seatType,
            status = (if isBooked then BOOKED else AVAILABLE), price = price\<rparr> m)"

text \<open>\<open>initializeSeats\<close>: \<open>rows\<close> and \<open>seatsPerRow\<close> are counts; \<open>random r s\<close> tells
  whether the draw for seat \<open>s\<close> of row \<open>r\<close> marked it as already booked. Neither the
  map nor the set of selected codes is emptied first.\<close>

definition initializeSeats ::
  "SeatManager \<Rightarrow> string \<Rightarrow> nat \<Rightarrow> nat \<Rightarrow> number \<Rightarrow> (nat \<Rightarrow> nat \<Rightarrow> bool) \<Rightarrow> SeatManager" where
  "initializeSeats this showtimeId rows seatsPerRow basePrice random =
     this\<lparr>seats :=
       fold (\<lambda>r. fold (\<lambda>s. initializeSeat showtimeId rows basePrice r s (random r s))
                    [1..<Suc seatsPerRow])
            [0..<rows] (seats this)\<rparr>"

definition getSeat :: "SeatManager \<Rightarrow> string \<Rightarrow> Seat option" where
  "getSeat this seatCode = Map_get (seats this) seatCode"

definition selectSeat :: "SeatManager \<Rightarrow> string \<Rightarrow> bool \<times> SeatManager" where
  "selectSeat this seatCode =
     (case Map_get (seats this) seatCode of
        None \<Rightarrow> (False, this)
      | Some seat \<Rightarrow>
          if status seat \<noteq> AVAILABLE then (False, this)
          else (True, this\<lparr>seats := Map_set seatCode (seat\<lparr>status := SELECTED\<rparr>) (seats this),
                            selectedSeats := Set_add seatCode (selectedSeats this)\<rparr>))"

definition deselectSeat :: "SeatManager \<Rightarrow> string \<Rightarrow> bool \<times> SeatManager" where
  "deselectSeat this seatCode =
     (case Map_get (seats this) seatCode of
        None \<Rightarrow> (False, this)
      | Some seat \<Rightarrow>
          if status seat \<noteq> SELECTED then (False, this)
          else (True, this\<lparr>seats := Map_set seatCode (seat\<lparr>status := AVAILABLE\<rparr>) (seats this),
                            selectedSeats := Set_delete seatCode (selectedSeats this)\<rparr>))"

definition getSelectedSeats :: "SeatManager \<Rightarrow> Seat list" where
  "getSelectedSeats this = List.map_filter (Map_get (seats this)) (selectedSeats this)"

definition getSelectedSeatsTotal :: "SeatManager \<Rightarrow> number" where
  "getSelectedSeatsTotal this = foldl (\<lambda>sum seat. sum + price seat) 0 (getSelectedSeats this)"

definition getAllSeats :: "SeatManager \<Rightarrow> Seat list" where
  "getAllSeats this = map snd (seats this)"

definition getAvailableSeats :: "SeatManager \<Rightarrow> Seat list" where
  "getAvailableSeats this = filter (\<lambda>seat. status seat = AVAILABLE) (getAllSeats this)"

text \<open>The loop of \<open>confirmBooking\<close> over the selected codes: a code with a seat has the
  seat marked booked, whatever its status was.\<close>

definition bookSeat :: "string \<Rightarrow> (string, Seat) Map \<Rightarrow> (string, Seat) Map" where
  "bookSeat code m =
     (case Map_get m code of
        None \<Rightarrow> m
      | Some seat \<Rightarrow> Map_set code (seat\<lparr>status := BOOKED\<rparr>) m)"

definition confirmBooking :: "SeatManager \<Rightarrow> bool \<times> SeatManager" where
  "confirmBooking this =
     (if length (selectedSeats this) = 0 then (False, this)
      else (True, this\<lparr>seats := fold bookSeat (selectedSeats this) (seats this),
                        selectedSeats := []\<rparr>))"

subsection \<open>Sequences of calls on one registry\<close>

datatype ManagerCall = SelectSeat string | DeselectSeat string | ConfirmBooking

fun managerCall :: "SeatManager \<Rightarrow> ManagerCall \<Rightarrow> SeatManager" where
  "managerCall m (SelectSeat code) = snd (selectSeat m code)"
| "managerCall m (DeselectSeat code) = snd (deselectSeat m code)"
| "managerCall m ConfirmBooking = snd (confirmBooking m)"

definition managerCalls :: "SeatManager \<Rightarrow> ManagerCall list \<Rightarrow> SeatManager" where
  "managerCalls m cs = foldl managerCall m cs"

text \<open>The codes of the seats whose status is selected, read off the map, and the
  agreement between the map and the set of selected codes: each holds a key once, and a
  code is in the set exactly when its seat's status is selected.\<close>

definition selectedCodes :: "SeatManager \<Rightarrow> string list" where
  "selectedCodes m = map fst (filter (\<lambda>(code, seat). status seat = SELECTED) (seats m))"

definition consistent :: "SeatManager \<Rightarrow> bool" where
  "consistent m \<longleftrightarrow>
     distinct (map fst (seats m)) \<and> distinct (selectedSeats m) \<and>
     set (selectedSeats m) = set (selectedCodes m)"

text \<open>The registry of the repository's own scenario: five rows of five seats at
  50000, none of them booked beforehand.\<close>

definition demoManager :: SeatManager where
  "demoManager = initializeSeats SeatManager_new ''SHW-1'' 5 5 50000 (\<lambda>r s. False)"

section \<open>Commands and their invoker (Command pattern)\<close>

text \<open>
  Command objects are mutable and are shared by reference between their creator and
  the stacks of the invoker, and each holds a reference to its registry. Objects
  therefore live in a store, a reference being an index into it. The three concrete
  classes of the source are the three constructors; their fields are, in order,
  \<open>seatManager\<close>, \<open>seatCode\<close> (or \<open>seatCodes\<close> and \<open>successfullyCodes\<close>), \<open>executed\<close>
  and \<open>timestamp\<close>.
\<close>

type_synonym ref = nat

datatype SeatCommand =
    SelectSeatCommand ref string bool "Date option"
  | DeselectSeatCommand ref string bool "Date option"
  | SelectMultipleSeatsCommand ref "string list" "string list" bool "Date option"

record Store =
  managers :: "ref \<Rightarrow> SeatManager"
  commands :: "ref \<Rightarrow> SeatCommand"

fun executed :: "SeatCommand \<Rightarrow> bool" where
  "executed (SelectSeatCommand m code e t) = e"
| "executed (DeselectSeatCommand m code e t) = e"
| "executed (SelectMultipleSeatsCommand m codes succ e t) = e"

fun getTimestamp :: "SeatCommand \<Rightarrow> Date option" where
  "getTimestamp (SelectSeatCommand m code e t) = t"
| "getTimestamp (DeselectSeatCommand m code e t) = t"
| "getTimestamp (SelectMultipleSeatsCommand m codes succ e t) = t"

text \<open>The loop of \<open>SelectMultipleSeatsCommand.execute\<close>: every requested code is tried
  in order and the codes that were selected are collected.\<close>

fun selectEach :: "SeatManager \<Rightarrow> string list \<Rightarrow> string list \<Rightarrow> SeatManager \<times> string list" where
  "selectEach m [] successfullyCodes = (m, successfullyCodes)"
| "selectEach m (code # codes) successfullyCodes =
     (case selectSeat m code of
        (True, m') \<Rightarrow> selectEach m' codes (successfullyCodes @ [code])
      | (False, m') \<Rightarrow> selectEach m' codes successfullyCodes)"

text \<open>The loop of \<open>SelectMultipleSeatsCommand.undo\<close>, from the last collected code down
  to the first; the results of the calls are dropped.\<close>

definition deselectEach :: "SeatManager \<Rightarrow> string list \<Rightarrow> SeatManager" where
  "deselectEach m successfullyCodes =
     fold (\<lambda>code m. snd (deselectSeat m code)) (rev successfullyCodes) m"

text \<open>\<open>execute()\<close> on the command object at reference \<open>this\<close>, by its class.\<close>

definition execute :: "ref \<Rightarrow> Date \<Rightarrow> Store \<Rightarrow> bool \<times> Store" where
  "execute this now st =
     (case commands st this of
        SelectSeatCommand mgr seatCode e t \<Rightarrow>
          if e then (False, st)
          else (case selectSeat (managers st mgr) seatCode of
                  (True, m') \<Rightarrow>
                    (True, st\<lparr>managers := (managers st)(mgr := m'),
                              commands := (commands st)
                                (this := SelectSeatCommand mgr seatCode True (Some now))\<rparr>)
                | (False, m') \<Rightarrow> (False, st\<lparr>managers := (managers st)(mgr := m')\<rparr>))
      | DeselectSeatCommand mgr seatCode e t \<Rightarrow>
          if e then (False, st)
          else (case deselectSeat (managers st mgr) seatCode of
                  (True, m') \<Rightarrow>
                    (True, st\<lparr>managers := (managers st)(mgr := m'),
                              commands := (commands st)
                                (this := DeselectSeatCommand mgr seatCode True (Some now))\<rparr>)
                | (False, m') \<Rightarrow> (False, st\<lparr>managers := (managers st)(mgr := m')\<rparr>))
      | SelectMultipleSeatsCommand mgr seatCodes successfullyCodes e t \<Rightarrow>
          if e then (False, st)
          else (case selectEach (managers st mgr) seatCodes [] of
                  (m', successfullyCodes') \<Rightarrow>
                    (length successfullyCodes' = length seatCodes,
                     st\<lparr>managers := (managers st)(mgr := m'),
                        commands := (commands st)
                          (this := SelectMultipleSeatsCommand mgr seatCodes successfullyCodes'
                                     True (Some now))\<rparr>)))"

text \<open>\<open>undo()\<close> on the command object at reference \<open>this\<close>, by its class.\<close>

definition undoCommand :: "ref \<Rightarrow> Store \<Rightarrow> bool \<times> Store" where
  "undoCommand this st =
     (case commands st this of
        SelectSeatCommand mgr seatCode e t \<Rightarrow>
          if \<not> e then (False, st)
          else (case deselectSeat (managers st mgr) seatCode of
                  (True, m') \<Rightarrow>
                    (True, st\<lparr>managers := (managers st)(mgr := m'),
                              commands := (commands st)
                                (this := SelectSeatCommand mgr seatCode False t)\<rparr>)
                | (False, m') \<Rightarrow> (False, st\<lparr>managers := (managers st)(mgr := m')\<rparr>))
      | DeselectSeatCommand mgr seatCode e t \<Rightarrow>
          if \<not> e then (False, st)
          else (case selectSeat (managers st mgr) seatCode of
                  (True, m') \<Rightarrow>
                    (True, st\<lparr>managers := (managers st)(mgr := m'),
                              commands := (commands st)
                                (this := DeselectSeatCommand mgr seatCode False t)\<rparr>)
                | (False, m') \<Rightarrow> (False, st\<lparr>managers := (managers st)(mgr := m')\<rparr>))
      | SelectMultipleSeatsCommand mgr seatCodes successfullyCodes e t \<Rightarrow>
          if \<not> e then (False, st)
          else (True,
                st\<lparr>managers := (managers st)
                     (mgr := deselectEach (managers st mgr) successfullyCodes),
                   commands := (commands st)
                     (this := SelectMultipleSeatsCommand mgr seatCodes [] False t)\<rparr>))"

text \<open>The invoker. The stacks are arrays of references whose last element is the top:
  \<open>push\<close> appends, \<open>pop\<close> takes the last element, \<open>shift\<close> drops the first.\<close>

record SeatSelectionInvoker =
  undoStack :: "ref list"
  redoStack :: "ref list"
  maxHistorySize :: int

definition SeatSelectionInvoker_new :: "int \<Rightarrow> SeatSelectionInvoker" where
  "SeatSelectionInvoker_new maxSize = \<lparr>undoStack = [], redoStack = [], maxHistorySize = maxSize\<rparr>"

text \<open>The default of the constructor's parameter.\<close>

definition defaultMaxHistorySize :: int where
  "defaultMaxHistorySize = 50"

definition executeCommand ::
  "SeatSelectionInvoker \<Rightarrow> ref \<Rightarrow> Date \<Rightarrow> Store \<Rightarrow> bool \<times> SeatSelectionInvoker \<times> Store" where
  "executeCommand this command now st =
     (case execute command now st of
        (success, st') \<Rightarrow>
          if success
          then (let pushed = undoStack this @ [command]
                in (success,
                    this\<lparr>undoStack := (if int (length pushed) > maxHistorySize this
                                         then tl pushed else pushed),
                         redoStack := []\<rparr>,
                    st'))
          else (success, this, st'))"

definition undo :: "SeatSelectionInvoker \<Rightarrow> Store \<Rightarrow> bool \<times> SeatSelectionInvoker \<times> Store" where
  "undo this st =
     (if length (undoStack this) = 0 then (False, this, st)
      else (let command = last (undoStack this);
                popped = this\<lparr>undoStack := butlast (undoStack this)\<rparr>
            in case undoCommand command st of
                 (success, st') \<Rightarrow>
                   if success
                   then (success, popped\<lparr>redoStack := redoStack popped @ [command]\<rparr>, st')
                   else (success, popped, st')))"

definition redo ::
  "SeatSelectionInvoker \<Rightarrow> Date \<Rightarrow> Store \<Rightarrow> bool \<times> SeatSelectionInvoker \<times> Store" where
  "redo this now st =
     (if length (redoStack this) = 0 then (False, this, st)
      else (let command = last (redoStack this);
                popped = this\<lparr>redoStack := butlast (redoStack this)\<rparr>
            in case execute command now st of
                 (success, st') \<Rightarrow>
                   if success
                   then (success, popped\<lparr>undoStack := undoStack popped @ [command]\<rparr>, st')
                   else (success, popped, st')))"

definition canUndo :: "SeatSelectionInvoker \<Rightarrow> bool" where
  "canUndo this \<longleftrightarrow> length (undoStack this) > 0"


definition getUndoCount :: "SeatSelectionInvoker \<Rightarrow> nat" where
  "getUndoCount this = length (undoStack this)"

definition getRedoCount :: "SeatSelectionInvoker \<Rightarrow> nat" where
  "getRedoCount this = length (redoStack this)"

definition clearHistory :: "SeatSelectionInvoker \<Rightarrow> SeatSelectionInvoker" where
  "clearHistory this = this\<lparr>undoStack := [], redoStack := []\<rparr>"


subsection \<open>Sequences of calls on one invoker\<close>

datatype InvokerCall = ExecuteCommand ref | Undo | Redo

fun invokerCall ::
  "SeatSelectionInvoker \<Rightarrow> InvokerCall \<times> Date \<Rightarrow> Store \<Rightarrow> bool \<times> SeatSelectionInvoker \<times> Store" where
  "invokerCall invoker (ExecuteCommand command, now) st = executeCommand invoker command now st"
| "invokerCall invoker (Undo, now) st = undo invoker st"
| "invokerCall invoker (Redo, now) st = redo invoker now st"

text \<open>The calls are made in order; the results they returned are collected.\<close>

fun invokerCalls ::
  "SeatSelectionInvoker \<Rightarrow> (InvokerCall \<times> Date) list \<Rightarrow> Store \<Rightarrow>
     bool list \<times> SeatSelectionInvoker \<times> Store" where
  "invokerCalls invoker [] st = ([], invoker, st)"
| "invokerCalls invoker (c # cs) st =
     (case invokerCall invoker c st of
        (r, invoker', st') \<Rightarrow>
          (case invokerCalls invoker' cs st' of
             (rs, invoker'', st'') \<Rightarrow> (r # rs, invoker'', st'')))"

text \<open>Selecting the given codes one after the other on a registry, with every call
  returning true; \<open>None\<close> as soon as one of them returns false.\<close>

fun selectAll :: "SeatManager \<Rightarrow> string list \<Rightarrow> SeatManager option" where
  "selectAll m [] = Some m"
| "selectAll m (code # codes) =
     (case selectSeat m code of
        (True, m') \<Rightarrow> selectAll m' codes
      | (False, m') \<Rightarrow> None)"

text \<open>A store for the examples. Registry 0 is the five-by-five registry above;
  every other registry has one row of two seats, the second booked by the draw of the
  initialisation. Commands 0 and 1 select seats of registry 0, command 2 asks registry
  0 for a seat it does not have, and every other command is a batch on the small
  registry asking for both of its seats.\<close>

definition partlyBookedManager :: SeatManager where
  "partlyBookedManager = initializeSeats SeatManager_new ''SHW-2'' 1 2 50000 (\<lambda>r s. s = 2)"

definition demoStore :: Store where
  "demoStore =
     \<lparr>managers = (\<lambda>r. if r = 0 then demoManager else partlyBookedManager),
      commands = (\<lambda>r. if r = 0 then SelectSeatCommand 0 ''A1'' False None
                     else if r = 1 then SelectSeatCommand 0 ''A2'' False None
                     else if r = 2 then SelectSeatCommand 0 ''Z9'' False None
                     else SelectMultipleSeatsCommand 1 [''A1'', ''A2''] [] False None)\<rparr>"

text \<open>Two selections on registry 0 through a new invoker of the default size, and
  two calls of \<open>undo\<close> after them.\<close>

definition demoSelected :: "bool list \<times> SeatSelectionInvoker \<times> Store" where
  "demoSelected =
     invokerCalls (SeatSelectionInvoker_new defaultMaxHistorySize)
       [(ExecuteCommand 0, 1), (ExecuteCommand 1, 2)] demoStore"

definition demoUndone :: "bool list \<times> SeatSelectionInvoker \<times> Store" where
  "demoUndone =
     invokerCalls (fst (snd demoSelected)) (replicate 2 (Undo, 3)) (snd (snd demoSelected))"

text \<open>A registry of one row of two seats at 100, none booked by the draws; the same
  registry initialised a second time after its first seat was selected; and a store
  whose registries are all that second one and whose commands all select its first
  seat.\<close>

definition smallManager :: SeatManager where
  "smallManager = initializeSeats SeatManager_new ''SHW-1'' 1 2 100 (\<lambda>r s. False)"

definition reinitialisedManager :: SeatManager where
  "reinitialisedManager =
     initializeSeats (snd (selectSeat smallManager ''A1'')) ''SHW-1'' 1 2 100 (\<lambda>r s. False)"

definition staleStore :: Store where
  "staleStore =
     \<lparr>managers = (\<lambda>r. reinitialisedManager),
      commands = (\<lambda>r. SelectSeatCommand 0 ''A1'' False None)\<rparr>"

section \<open>Properties of the booking lifecycle\<close>

lemmas booking_defs = addSeat_def proceedToPayment_def pay_def confirm_def complete_def cancel_def
  refund_def setState_def setPaidAmount_def setTransactionId_def logStateChange_def

lemma BookingState_addSeat_id [simp]: "BookingState_addSeat s ctx = ctx"
  by (cases s) simp_all

lemma draftBooking_fields:
  "state (draftBooking p) = DraftState" "totalAmount (draftBooking p) = p"
  "BookingContext.seats (draftBooking p) = [''A1'']" "paidAmount (draftBooking p) = 0"
  by (simp_all add: draftBooking_def BookingContext_new_def booking_defs)

lemma pendingBooking_fields:
  "state (pendingBooking p) = PendingState" "totalAmount (pendingBooking p) = p"
  "BookingContext.seats (pendingBooking p) = [''A1'']" "paidAmount (pendingBooking p) = 0"
  by (simp_all add: pendingBooking_def draftBooking_fields booking_defs)

lemma paidBooking_fields:
  "state (paidBooking p) = PaidState" "totalAmount (paidBooking p) = p"
  "BookingContext.seats (paidBooking p) = [''A1'']" "paidAmount (paidBooking p) = p"
  by (simp_all add: paidBooking_def pendingBooking_fields booking_defs)

lemma confirmedBooking_fields:
  "state (confirmedBooking p) = ConfirmedState" "totalAmount (confirmedBooking p) = p"
  "BookingContext.seats (confirmedBooking p) = [''A1'']" "paidAmount (confirmedBooking p) = p"
  by (simp_all add: confirmedBooking_def paidBooking_fields booking_defs)

lemma completedBooking_fields:
  "state (completedBooking p) = CompletedState" "totalAmount (completedBooking p) = p"
  "BookingContext.seats (completedBooking p) = [''A1'']" "paidAmount (completedBooking p) = p"
  by (simp_all add: completedBooking_def confirmedBooking_fields booking_defs)

lemma cancelledBooking_fields:
  "state (cancelledBooking p) = CancelledState" "totalAmount (cancelledBooking p) = p"
  "BookingContext.seats (cancelledBooking p) = [''A1'']" "paidAmount (cancelledBooking p) = 0"
  by (simp_all add: cancelledBooking_def pendingBooking_fields booking_defs)

text \<open>Claim C1. For a booking in the Pending state with running total \<open>T\<close>,
  \<open>pay(amount)\<close> with \<open>amount < T\<close> leaves the booking as it was (so the state is still
  Pending and the paid amount is unchanged); with \<open>amount \<ge> T\<close> the booking becomes Paid,
  \<open>amount\<close> is recorded as the paid amount and a transaction reference is set.\<close>

theorem pay_in_Pending:
  "state ctx = PendingState \<Longrightarrow>
     (amount < totalAmount ctx \<longrightarrow> pay ctx amount now = ctx) \<and>
     (totalAmount ctx \<le> amount \<longrightarrow>
        state (pay ctx amount now) = PaidState \<and>
        paidAmount (pay ctx amount now) = amount \<and>
        transactionId (pay ctx amount now) =
          Some (''TXN-'' @ toUpperCase (toString_radix 36 now)))"
  by (simp add: booking_defs)

theorem pay_in_Pending_witness:
  "state (pendingBooking 50000) = PendingState \<and>
   40000 < totalAmount (pendingBooking 50000) \<and>
   pay (pendingBooking 50000) 40000 2 = pendingBooking 50000 \<and>
   totalAmount (pendingBooking 50000) \<le> 50000 \<and>
   state (pay (pendingBooking 50000) 50000 3) = PaidState \<and>
   paidAmount (pay (pendingBooking 50000) 50000 3) = 50000"
  using pay_in_Pending [of "pendingBooking 50000" 40000 2]
        pay_in_Pending [of "pendingBooking 50000" 50000 3]
  by (simp add: pendingBooking_fields)

lemma roundHalfEven_near: "\<bar>rat_of_int (roundHalfEven x) - x\<bar> \<le> 1 / 2"
proof -
  define r where "r = x - rat_of_int \<lfloor>x\<rfloor>"
  have r: "0 \<le> r" "r < 1" unfolding r_def by linarith+
  have x: "x = rat_of_int \<lfloor>x\<rfloor> + r" by (simp add: r_def)
  consider "r < 1 / 2" | "1 / 2 < r" | "r = 1 / 2" by linarith
  then show ?thesis
  proof cases
    case 1
    then have "roundHalfEven x = \<lfloor>x\<rfloor>"
      by (simp add: roundHalfEven_def Let_def r_def)
    with 1 r show ?thesis by (simp add: r_def)
  next
    case 2
    then have "roundHalfEven x = \<lfloor>x\<rfloor> + 1"
      by (simp add: roundHalfEven_def Let_def r_def)
    with 2 r show ?thesis by (simp add: r_def)
  next
    case 3
    then have "roundHalfEven x = \<lfloor>x\<rfloor> \<or> roundHalfEven x = \<lfloor>x\<rfloor> + 1"
      by (simp add: roundHalfEven_def Let_def r_def)
    with 3 show ?thesis by (auto simp: r_def)
  qed
qed

lemma bitLength_bounds: "0 < n \<Longrightarrow> 2 ^ bitLength n \<le> 2 * n \<and> n < 2 ^ bitLength n"
proof (induction n rule: bitLength.induct)
  case (1 n)
  then have unfold: "bitLength n = Suc (bitLength (n div 2))"
    by (simp add: bitLength.simps [of n])
  show ?case
  proof (cases "n = 1")
    case True
    have "bitLength 1 = Suc 0"
      by (simp add: bitLength.simps [of 1] bitLength.simps [of 0])
    with True show ?thesis by simp
  next
    case False
    with "1.prems" have "0 < n div 2" by simp
    with "1.IH" "1.prems"
    have "2 ^ bitLength (n div 2) \<le> 2 * (n div 2) \<and> n div 2 < 2 ^ bitLength (n div 2)"
      by simp
    then show ?thesis unfolding unfold by simp linarith
  qed
qed

lemma pow2_pos: "0 < pow2 k"
  by (simp add: pow2_def)

lemma pow2_nat: "pow2 (int n) = 2 ^ n"
  by (simp add: pow2_def)

lemma pow2_neg_nat: "pow2 (- int n) = 1 / 2 ^ n"
  by (auto simp: pow2_def)

lemma pow2_add: "pow2 (a + b) = pow2 a * pow2 b"
proof -
  have "pow2 k = 2 powi k" for k
    by (simp add: pow2_def power_int_def field_simps)
  then show ?thesis by (simp add: power_int_add)
qed

lemma pow2_Suc: "pow2 (k + 1) = 2 * pow2 k"
  using pow2_add [of k 1] pow2_nat [of 1] by simp

lemma pow2_shift: "pow2 (k - 52) = pow2 k / 2 ^ 52"
proof -
  have "pow2 k = pow2 (k - 52) * pow2 (int 52)"
    using pow2_add [of "k - 52" 52] by simp
  then have "pow2 k = pow2 (k - 52) * 2 ^ 52" by (simp only: pow2_nat)
  then show ?thesis by simp
qed

lemma bitLength_floor:
  fixes t :: rat
  assumes "1 \<le> t"
  shows "2 ^ bitLength \<lfloor>t\<rfloor> \<le> 2 * t \<and> t < 2 ^ bitLength \<lfloor>t\<rfloor>"
proof -
  from assms have pos: "0 < \<lfloor>t\<rfloor>" by linarith
  note b = bitLength_bounds [OF pos]
  from b have "rat_of_int (2 ^ bitLength \<lfloor>t\<rfloor>) \<le> rat_of_int (2 * \<lfloor>t\<rfloor>)"
    by (simp only: of_int_le_iff)
  moreover have "rat_of_int \<lfloor>t\<rfloor> \<le> t" by simp
  ultimately have lower: "2 ^ bitLength \<lfloor>t\<rfloor> \<le> 2 * t" by simp linarith
  from b have "\<lfloor>t\<rfloor> + 1 \<le> 2 ^ bitLength \<lfloor>t\<rfloor>" by simp
  then have "rat_of_int (\<lfloor>t\<rfloor> + 1) \<le> rat_of_int (2 ^ bitLength \<lfloor>t\<rfloor>)"
    by (simp only: of_int_le_iff)
  moreover have "t < rat_of_int (\<lfloor>t\<rfloor> + 1)" by linarith
  ultimately have "t < 2 ^ bitLength \<lfloor>t\<rfloor>" by simp
  with lower show ?thesis by simp
qed

lemma bitLength_floor_pos: "1 \<le> t \<Longrightarrow> 0 < bitLength \<lfloor>t\<rfloor>" for t :: rat
proof -
  assume "1 \<le> t"
  then have "0 < \<lfloor>t\<rfloor>" by linarith
  then show ?thesis by (simp add: bitLength.simps [of "\<lfloor>t\<rfloor>"])
qed

lemma exponent_bounds:
  assumes "x \<noteq> 0"
  shows "pow2 (exponent x) \<le> \<bar>x\<bar> \<and> \<bar>x\<bar> < pow2 (exponent x + 1)"
proof (cases "1 \<le> \<bar>x\<bar>")
  case True
  define L where "L = bitLength \<lfloor>\<bar>x\<bar>\<rfloor>"
  from bitLength_floor_pos [OF True] obtain l where L: "L = Suc l"
    unfolding L_def by (cases "bitLength \<lfloor>\<bar>x\<bar>\<rfloor>") auto
  have e: "exponent x = int l"
    using True by (simp add: exponent_def L_def [symmetric] L)
  from bitLength_floor [OF True] have "2 ^ Suc l \<le> 2 * \<bar>x\<bar>" and "\<bar>x\<bar> < 2 ^ Suc l"
    by (simp_all only: L_def [symmetric] L)
  then show ?thesis
    unfolding e pow2_Suc pow2_nat by simp
next
  case False
  with assms have x: "0 < \<bar>x\<bar>" "\<bar>x\<bar> < 1" by auto
  define t where "t = 1 / \<bar>x\<bar>"
  from x have t: "1 \<le> t" by (simp add: t_def)
  define L where "L = bitLength \<lfloor>t\<rfloor>"
  from bitLength_floor_pos [OF t] obtain l where L: "L = Suc l"
    unfolding L_def by (cases "bitLength \<lfloor>t\<rfloor>") auto
  from bitLength_floor [OF t] have "2 ^ Suc l \<le> 2 * t" and "t < 2 ^ Suc l"
    by (simp_all only: L_def [symmetric] L)
  then have tl: "2 ^ l \<le> t" and tu: "t < 2 * 2 ^ l" by simp_all
  have upper: "\<bar>x\<bar> \<le> pow2 (- int l)"
    using tl x by (simp add: pow2_neg_nat t_def field_simps)
  have lower: "pow2 (- int l - 1) < \<bar>x\<bar>"
  proof -
    have "pow2 (- int l) = 2 * pow2 (- int l - 1)"
      using pow2_Suc [of "- int l - 1"] by simp
    then have p: "pow2 (- int l - 1) = 1 / (2 * 2 ^ l)"
      by (simp add: pow2_neg_nat)
    have "1 / (2 * 2 ^ l) < \<bar>x\<bar>"
      using tu x by (simp add: t_def field_simps)
    then show ?thesis by (simp only: p)
  qed
  have m: "int (bitLength \<lfloor>1 / \<bar>x\<bar>\<rfloor>) - 1 = int l"
    by (simp add: t_def [symmetric] L_def [symmetric] L)
  show ?thesis
  proof (cases "pow2 (- int l) \<le> \<bar>x\<bar>")
    case True
    then have e: "exponent x = - int l"
      using False by (simp add: exponent_def Let_def m)
    have "pow2 (- int l) < pow2 (- int l + 1)"
      using pow2_pos [of "- int l"] unfolding pow2_Suc by simp
    with True upper show ?thesis unfolding e by linarith
  next
    case no: False
    then have e: "exponent x = - int l - 1"
      using False by (simp add: exponent_def Let_def m)
    from no lower show ?thesis unfolding e by simp
  qed
qed

lemma toDouble_near: "\<bar>toDouble x - x\<bar> \<le> \<bar>x\<bar> / 2 ^ 53 + 1 / 2 ^ 1075"
proof (cases "x = 0")
  case True
  then show ?thesis by (simp add: toDouble_def)
next
  case False
  define e where "e = max (exponent x) (- 1022)"
  define u where "u = pow2 (e - 52)"
  have u: "0 < u" by (simp add: u_def pow2_pos)
  have td: "toDouble x = rat_of_int (roundHalfEven (x / u)) * u"
    using False by (simp add: toDouble_def Let_def e_def u_def)
  have "toDouble x - x = (rat_of_int (roundHalfEven (x / u)) - x / u) * u"
    using u by (simp add: td field_simps)
  then have "\<bar>toDouble x - x\<bar> = \<bar>rat_of_int (roundHalfEven (x / u)) - x / u\<bar> * u"
    using u by (simp add: abs_mult)
  also have "\<dots> \<le> (1 / 2) * u"
    using roundHalfEven_near [of "x / u"] u by (intro mult_right_mono) simp_all
  finally have half: "\<bar>toDouble x - x\<bar> \<le> u / 2" by simp
  have nonneg: "0 \<le> \<bar>x\<bar> / 2 ^ 53" "(0::rat) \<le> 1 / 2 ^ 1075"
    by (simp_all del: power_numeral)
  have "u / 2 \<le> \<bar>x\<bar> / 2 ^ 53 + 1 / 2 ^ 1075"
  proof (cases "- 1022 \<le> exponent x")
    case True
    then have "e = exponent x" by (simp add: e_def)
    then have "u = pow2 (exponent x) / 2 ^ 52" by (simp only: u_def pow2_shift)
    also have "\<dots> \<le> \<bar>x\<bar> / 2 ^ 52"
      using exponent_bounds [OF False] by (intro divide_right_mono) simp_all
    finally have "u / 2 \<le> \<bar>x\<bar> / 2 ^ 52 / 2" by simp
    also have "\<bar>x\<bar> / 2 ^ 52 / 2 = \<bar>x\<bar> / 2 ^ Suc 52"
      by (simp only: power_Suc) simp
    also have "Suc 52 = 53" by simp
    finally show ?thesis using nonneg(2) by linarith
  next
    case False
    then have "e - 52 = - int 1074" by (simp add: e_def)
    then have "u = 1 / 2 ^ 1074" by (simp only: u_def pow2_neg_nat)
    then have "u / 2 = 1 / 2 ^ Suc 1074"
      by (simp only: power_Suc) simp
    also have "Suc 1074 = 1075" by simp
    finally show ?thesis using nonneg(1) by linarith
  qed
  with half show ?thesis by linarith
qed

lemma Math_round_near: "\<bar>Math_round x - x\<bar> \<le> 1 / 2"
  unfolding Math_round_def by linarith

lemma Math_round_whole: "Math_round x \<in> \<int>"
  by (simp add: Math_round_def)

lemma multiply_0_8_near:
  "\<bar>multiply p double_0_8 - p * (8 / 10)\<bar> \<le> \<bar>p\<bar> / 2 ^ 52 + 1 / 2 ^ 1075"
proof -
  have c: "double_0_8 = 8 / 10 + 1 / (5 * 2 ^ 52)" and c1: "0 \<le> double_0_8" "double_0_8 \<le> 1"
    by (simp_all add: double_0_8_def)
  have "\<bar>p * double_0_8\<bar> = \<bar>p\<bar> * double_0_8"
    using c1(1) by (simp add: abs_mult)
  also have "\<dots> \<le> \<bar>p\<bar> * 1"
    using c1(2) by (intro mult_left_mono) simp_all
  finally have "\<bar>p * double_0_8\<bar> / 2 ^ 53 \<le> \<bar>p\<bar> / 2 ^ 53"
    by (simp add: divide_right_mono)
  with toDouble_near [of "p * double_0_8"]
  have rounded: "\<bar>multiply p double_0_8 - p * double_0_8\<bar> \<le> \<bar>p\<bar> / 2 ^ 53 + 1 / 2 ^ 1075"
    unfolding multiply_def by linarith
  have "p * double_0_8 - p * (8 / 10) = p * (1 / (5 * 2 ^ 52))"
    by (simp only: c) (simp add: algebra_simps)
  then have "\<bar>p * double_0_8 - p * (8 / 10)\<bar> = \<bar>p\<bar> * (1 / (5 * 2 ^ 52))"
    by (simp only: abs_mult) simp
  also have "\<dots> \<le> \<bar>p\<bar> * (1 / 2 ^ 53)"
    by (intro mult_left_mono) simp_all
  finally have literal: "\<bar>p * double_0_8 - p * (8 / 10)\<bar> \<le> \<bar>p\<bar> / 2 ^ 53" by simp
  have "\<bar>p\<bar> / 2 ^ 53 + \<bar>p\<bar> / 2 ^ 53 = \<bar>p\<bar> / 2 ^ 52" by simp
  with rounded literal show ?thesis by linarith
qed

text \<open>Claim C2, as amended. \<open>refund\<close> in the Confirmed state moves the booking to
  Cancelled and computes \<open>Math.round\<close> of the double product of the paid amount \<open>P\<close> and
  0.8: a whole number within one half of that product, and within
  \<open>1/2 + |P|/2^52 + 2^(-1075)\<close> of 80% of \<open>P\<close>. \<open>refund\<close> in the Paid state moves the
  booking to Cancelled and computes the full paid amount.\<close>

theorem refund_amounts:
  "(state ctx = ConfirmedState \<longrightarrow>
      state (fst (refund ctx now)) = CancelledState \<and>
      snd (refund ctx now) = Some (Math_round (multiply (paidAmount ctx) double_0_8)) \<and>
      Math_round (multiply (paidAmount ctx) double_0_8) \<in> \<int> \<and>
      \<bar>Math_round (multiply (paidAmount ctx) double_0_8) - multiply (paidAmount ctx) double_0_8\<bar>
        \<le> 1 / 2 \<and>
      \<bar>Math_round (multiply (paidAmount ctx) double_0_8) - paidAmount ctx * (8 / 10)\<bar>
        \<le> 1 / 2 + \<bar>paidAmount ctx\<bar> / 2 ^ 52 + 1 / 2 ^ 1075) \<and>
   (state ctx = PaidState \<longrightarrow>
      state (fst (refund ctx now)) = CancelledState \<and>
      snd (refund ctx now) = Some (paidAmount ctx))"
proof (intro conjI impI)
  assume "state ctx = ConfirmedState"
  then show "state (fst (refund ctx now)) = CancelledState"
    and "snd (refund ctx now) = Some (Math_round (multiply (paidAmount ctx) double_0_8))"
    by (simp_all add: booking_defs)
next
  show "Math_round (multiply (paidAmount ctx) double_0_8) \<in> \<int>"
    by (rule Math_round_whole)
next
  show "\<bar>Math_round (multiply (paidAmount ctx) double_0_8) - multiply (paidAmount ctx) double_0_8\<bar>
          \<le> 1 / 2"
    by (rule Math_round_near)
next
  show "\<bar>Math_round (multiply (paidAmount ctx) double_0_8) - paidAmount ctx * (8 / 10)\<bar>
          \<le> 1 / 2 + \<bar>paidAmount ctx\<bar> / 2 ^ 52 + 1 / 2 ^ 1075"
    using Math_round_near [of "multiply (paidAmount ctx) double_0_8"]
      multiply_0_8_near [of "paidAmount ctx"]
    by linarith
next
  assume "state ctx = PaidState"
  then show "state (fst (refund ctx now)) = CancelledState"
    and "snd (refund ctx now) = Some (paidAmount ctx)"
    by (simp_all add: booking_defs)
qed

lemma refund_of_50000: "Math_round (multiply 50000 double_0_8) = 40000"
  by code_simp

lemma refund_at_a_tie: "Math_round (multiply (3125 / 1000 - 1 / 2 ^ 51) double_0_8) = 3"
  by code_simp

lemma refund_of_a_large_amount:
  "Math_round (multiply 1000000000000003 double_0_8) = 800000000000003"
  by code_simp

theorem refund_amounts_witness:
  "state (confirmedBooking 50000) = ConfirmedState \<and>
   state (fst (refund (confirmedBooking 50000) 4)) = CancelledState \<and>
   snd (refund (confirmedBooking 50000) 4) = Some 40000 \<and>
   snd (refund (confirmedBooking (3125 / 1000 - 1 / 2 ^ 51)) 4) = Some 3 \<and>
   snd (refund (confirmedBooking 1000000000000003) 4) = Some 800000000000003 \<and>
   state (paidBooking 50000) = PaidState \<and>
   state (fst (refund (paidBooking 50000) 3)) = CancelledState \<and>
   snd (refund (paidBooking 50000) 3) = Some 50000"
  using refund_amounts [of "confirmedBooking 50000" 4]
    refund_amounts [of "confirmedBooking (3125 / 1000 - 1 / 2 ^ 51)" 4]
    refund_amounts [of "confirmedBooking 1000000000000003" 4]
    refund_amounts [of "paidBooking 50000" 3]
  by (simp only: confirmedBooking_fields paidBooking_fields refund_of_50000 refund_at_a_tie
        refund_of_a_large_amount)

lemma refund_of_3: "Math_round (multiply 3 double_0_8) = 2"
  by code_simp

text \<open>Claim C2 as first stated fails: a booking with one seat at 3, paid in full
  and confirmed, is refunded 2, which is not 80% of 3.\<close>

theorem refund_not_exactly_80_percent:
  "state (confirmedBooking 3) = ConfirmedState \<and>
   paidAmount (confirmedBooking 3) = 3 \<and>
   snd (refund (confirmedBooking 3) 4) = Some 2 \<and>
   snd (refund (confirmedBooking 3) 4) \<noteq> Some (paidAmount (confirmedBooking 3) * (8 / 10))"
  using refund_of_3 by (simp add: confirmedBooking_fields refund_def)

text \<open>Claim C6. In the Completed and in the Cancelled state every operation returns
  the booking as it was: state, line items, running total, paid amount and transition
  log are all unchanged, and \<open>refund\<close> announces no amount.\<close>

theorem terminal_states_absorb:
  "state ctx = CompletedState \<or> state ctx = CancelledState \<Longrightarrow>
     addSeat ctx seatCode amount' = ctx \<and>
     proceedToPayment ctx now = ctx \<and>
     pay ctx amount now = ctx \<and>
     confirm ctx now = ctx \<and>
     complete ctx now = ctx \<and>
     cancel ctx now = ctx \<and>
     refund ctx now = (ctx, None)"
  by (auto simp add: booking_defs)

theorem terminal_states_absorb_witness:
  "state (completedBooking 50000) = CompletedState \<and>
   cancel (completedBooking 50000) 5 = completedBooking 50000 \<and>
   state (cancelledBooking 50000) = CancelledState \<and>
   refund (cancelledBooking 50000) 5 = (cancelledBooking 50000, None) \<and>
   addSeat (cancelledBooking 50000) ''A2'' 50000 = cancelledBooking 50000"
  using terminal_states_absorb [of "completedBooking 50000" _ _ 5]
        terminal_states_absorb [of "cancelledBooking 50000" "''A2''" 50000 5]
  by (simp add: completedBooking_fields cancelledBooking_fields)

text \<open>Claim C7. Outside the Draft state \<open>addSeat\<close> returns the booking as it was. In
  the Draft state it appends the seat code, adds the price to the running total and
  stays in Draft; a non-negative price does not decrease the total.\<close>

theorem addSeat_frame:
  "(state ctx \<noteq> DraftState \<longrightarrow> addSeat ctx seatCode amount' = ctx) \<and>
   (state ctx = DraftState \<longrightarrow>
      BookingContext.seats (addSeat ctx seatCode amount') = BookingContext.seats ctx @ [seatCode] \<and>
      totalAmount (addSeat ctx seatCode amount') = totalAmount ctx + amount' \<and>
      state (addSeat ctx seatCode amount') = DraftState \<and>
      (0 \<le> amount' \<longrightarrow> totalAmount ctx \<le> totalAmount (addSeat ctx seatCode amount')))"
  by (cases "state ctx") (simp_all add: addSeat_def)

theorem addSeat_frame_witness:
  "state (paidBooking 50000) \<noteq> DraftState \<and>
   addSeat (paidBooking 50000) ''A2'' 50000 = paidBooking 50000 \<and>
   state (draftBooking 50000) = DraftState \<and> (0::rat) \<le> 30000 \<and>
   BookingContext.seats (addSeat (draftBooking 50000) ''A2'' 30000) = [''A1'', ''A2''] \<and>
   totalAmount (addSeat (draftBooking 50000) ''A2'' 30000) = 80000 \<and>
   totalAmount (draftBooking 50000) \<le> totalAmount (addSeat (draftBooking 50000) ''A2'' 30000)"
  using addSeat_frame [of "paidBooking 50000" "''A2''" 50000]
        addSeat_frame [of "draftBooking 50000" "''A2''" 30000]
  by (simp add: paidBooking_fields draftBooking_fields)

lemma connectedLog_snoc:
  "connectedLog (es @ [e]) \<longleftrightarrow> connectedLog es \<and> (es = [] \<or> fromState e = toState (last es))"
  by (induction es rule: connectedLog.induct) auto

lemma logInv_new: "logInv (BookingContext_new customer movie b now random)"
  by (simp add: logInv_def BookingContext_new_def logStateChange_def)

lemma logInv_setState: "logInv ctx \<Longrightarrow> logInv (setState s now ctx)"
  by (simp add: logInv_def setState_def logStateChange_def connectedLog_snoc)

lemma logInv_call: "logInv ctx \<Longrightarrow> logInv (call ctx c)"
proof (cases c)
  case (Pair op now)
  assume holds: "logInv ctx"
  have same: "\<And>ctx'. stateHistory ctx' = stateHistory ctx \<Longrightarrow>
                 state ctx' = state ctx \<Longrightarrow> logInv ctx'"
    using holds by (simp add: logInv_def)
  show ?thesis
  proof (cases op)
    case (AddSeat code amount')
    then show ?thesis using Pair
      by (auto intro!: same simp: addSeat_def Let_def)
  next
    case ProceedToPayment
    then show ?thesis using Pair holds
      by (cases "state ctx") (simp_all add: proceedToPayment_def logInv_setState)
  next
    case (Pay amount)
    have "logInv (setPaidAmount amount now ctx)"
      by (rule same) (simp_all add: setPaidAmount_def)
    then have "logInv (setTransactionId i now (setPaidAmount amount now ctx))" for i
      by (simp add: logInv_def setTransactionId_def)
    then show ?thesis using Pair Pay holds
      by (cases "state ctx") (simp_all add: pay_def logInv_setState)
  next
    case Confirm
    then show ?thesis using Pair holds
      by (cases "state ctx") (simp_all add: confirm_def logInv_setState)
  next
    case Complete
    then show ?thesis using Pair holds
      by (cases "state ctx") (simp_all add: complete_def logInv_setState)
  next
    case Cancel
    then show ?thesis using Pair holds
      by (cases "state ctx") (simp_all add: cancel_def logInv_setState)
  next
    case Refund
    then show ?thesis using Pair holds
      by (cases "state ctx") (simp_all add: refund_def logInv_setState)
  next
    case (SetState s)
    then show ?thesis using Pair holds by (simp add: logInv_setState)
  next
    case (SetPaidAmount amount)
    then show ?thesis using Pair
      by (auto intro!: same simp: setPaidAmount_def)
  next
    case (SetTransactionId i)
    then show ?thesis using Pair
      by (auto intro!: same simp: setTransactionId_def)
  qed
qed

lemma logInv_calls: "logInv ctx \<Longrightarrow> logInv (calls ctx cs)"
  unfolding calls_def by (induction cs arbitrary: ctx) (simp_all add: logInv_call)

text \<open>Claim C10. Whatever calls are made on a booking after its construction, the
  transition log is not empty, its first entry goes from \<open>Initial\<close> to \<open>Draft\<close>, and every
  later entry starts in the state in which the entry before it ended.\<close>

theorem stateHistory_connected:
  "stateHistory (calls (BookingContext_new customer movie b now random) cs) \<noteq> [] \<and>
   fromState (hd (stateHistory (calls (BookingContext_new customer movie b now random) cs))) = ''Initial'' \<and>
   toState (hd (stateHistory (calls (BookingContext_new customer movie b now random) cs))) = ''Draft'' \<and>
   connectedLog (stateHistory (calls (BookingContext_new customer movie b now random) cs))"
  using logInv_calls [OF logInv_new, of customer movie b now random cs]
  by (simp add: logInv_def)


section \<open>Properties of the seat registry\<close>

lemma Map_get_set [simp]: "Map_get (Map_set k v m) k' = (if k' = k then Some v else Map_get m k')"
  by (simp add: Map_get_def Map_set_def update_conv')

lemma distinct_Map_set [simp]: "distinct (map fst m) \<Longrightarrow> distinct (map fst (Map_set k v m))"
  by (simp add: Map_set_def distinct_update)

lemma Map_set_same: "Map_get m k = Some v \<Longrightarrow> Map_set k v m = m"
  by (simp add: Map_get_def Map_set_def update_triv)

lemma Map_set_twice [simp]: "Map_set k v (Map_set k v' m) = Map_set k v m"
  by (simp add: Map_set_def)

lemma set_Set_add [simp]: "set (Set_add x xs) = insert x (set xs)"
  by (auto simp: Set_add_def)

lemma set_Set_delete [simp]: "set (Set_delete x xs) = set xs - {x}"
  by (auto simp: Set_delete_def)

lemma distinct_Set_add [simp]: "distinct xs \<Longrightarrow> distinct (Set_add x xs)"
  by (simp add: Set_add_def)

lemma distinct_Set_delete [simp]: "distinct xs \<Longrightarrow> distinct (Set_delete x xs)"
  by (simp add: Set_delete_def)

text \<open>Claim C8. \<open>selectSeat\<close> returns true exactly when the registry holds a seat
  under the code and that seat is available; it then sets the status of that seat to
  selected and changes no other seat. In every other case, a missing seat included, it
  returns false and leaves the registry as it was; the model has no failing branch, as
  the source has no \<open>throw\<close>. A second \<open>selectSeat\<close> on the same code returns false.
  \<open>deselectSeat\<close> mirrors it on the status selected.\<close>

theorem selectSeat_guard:
  "(fst (selectSeat m code) \<longleftrightarrow>
      (\<exists>seat. getSeat m code = Some seat \<and> status seat = AVAILABLE)) \<and>
   (fst (selectSeat m code) \<longrightarrow>
      (\<exists>seat. getSeat m code = Some seat \<and>
              getSeat (snd (selectSeat m code)) code = Some (seat\<lparr>status := SELECTED\<rparr>)) \<and>
      (\<forall>other. other \<noteq> code \<longrightarrow>
              getSeat (snd (selectSeat m code)) other = getSeat m other)) \<and>
   (\<not> fst (selectSeat m code) \<longrightarrow> snd (selectSeat m code) = m) \<and>
   \<not> fst (selectSeat (snd (selectSeat m code)) code) \<and>
   (fst (deselectSeat m code) \<longleftrightarrow>
      (\<exists>seat. getSeat m code = Some seat \<and> status seat = SELECTED)) \<and>
   (\<not> fst (deselectSeat m code) \<longrightarrow> snd (deselectSeat m code) = m) \<and>
   \<not> fst (deselectSeat (snd (deselectSeat m code)) code)"
  by (auto simp: selectSeat_def deselectSeat_def getSeat_def split: option.splits)

lemma demo_select: "fst (selectSeat demoManager ''A1'')"
  by code_simp

lemma demo_deselect: "fst (deselectSeat (snd (selectSeat demoManager ''A1'')) ''A1'')"
  by code_simp

lemma demo_missing: "\<not> fst (selectSeat demoManager ''Z9'')"
  by code_simp


theorem selectSeat_guard_witness:
  "fst (selectSeat demoManager ''A1'') \<and>
   \<not> fst (selectSeat (snd (selectSeat demoManager ''A1'')) ''A1'') \<and>
   fst (deselectSeat (snd (selectSeat demoManager ''A1'')) ''A1'') \<and>
   \<not> fst (deselectSeat (snd (deselectSeat (snd (selectSeat demoManager ''A1'')) ''A1'')) ''A1'') \<and>
   \<not> fst (selectSeat demoManager ''Z9'') \<and> snd (selectSeat demoManager ''Z9'') = demoManager"
  using selectSeat_guard [of demoManager "''A1''"] selectSeat_guard [of demoManager "''Z9''"]
        selectSeat_guard [of "snd (selectSeat demoManager ''A1'')" "''A1''"]
        demo_select demo_deselect demo_missing
  by simp

lemma selectSeat_True:
  assumes "selectSeat m k = (True, m')"
  obtains seat where "Map_get (seats m) k = Some seat" "status seat = AVAILABLE"
    "seats m' = Map_set k (seat\<lparr>status := SELECTED\<rparr>) (seats m)"
    "selectedSeats m' = Set_add k (selectedSeats m)"
  using assms by (auto simp: selectSeat_def split: option.splits if_splits)

lemma map_of_filter_keys:
  "distinct (map fst al) \<Longrightarrow>
   set (map fst (filter P al)) = {k. \<exists>v. map_of al k = Some v \<and> P (k, v)}"
  by (induction al) (auto simp: rev_image_eqI)

lemma set_selectedCodes:
  "distinct (map fst (seats m)) \<Longrightarrow>
   set (selectedCodes m) = {k. \<exists>seat. Map_get (seats m) k = Some seat \<and> status seat = SELECTED}"
  unfolding selectedCodes_def Map_get_def by (subst map_of_filter_keys) auto

lemma consistent_iff:
  "consistent m \<longleftrightarrow>
     distinct (map fst (seats m)) \<and> distinct (selectedSeats m) \<and>
     (\<forall>k. k \<in> set (selectedSeats m) \<longleftrightarrow>
          (\<exists>seat. Map_get (seats m) k = Some seat \<and> status seat = SELECTED))"
  unfolding consistent_def using set_selectedCodes [of m] by auto

lemma consistent_selectSeat: "consistent m \<Longrightarrow> consistent (snd (selectSeat m code))"
  unfolding consistent_iff by (auto simp: selectSeat_def split: option.splits)

lemma consistent_deselectSeat: "consistent m \<Longrightarrow> consistent (snd (deselectSeat m code))"
  unfolding consistent_iff by (auto simp: deselectSeat_def split: option.splits)

lemma distinct_bookSeat [simp]: "distinct (map fst al) \<Longrightarrow> distinct (map fst (bookSeat c al))"
  by (simp add: bookSeat_def split: option.splits)

lemma Map_get_bookSeat:
  "Map_get (bookSeat c al) k =
     (if k = c then map_option (\<lambda>seat. seat\<lparr>status := BOOKED\<rparr>) (Map_get al k) else Map_get al k)"
  by (simp add: bookSeat_def split: option.splits)

lemma distinct_fold_bookSeat:
  "distinct (map fst al) \<Longrightarrow> distinct (map fst (fold bookSeat cs al))"
  by (induction cs arbitrary: al) simp_all

lemma Map_get_fold_bookSeat:
  "Map_get (fold bookSeat cs al) k =
     (if k \<in> set cs then map_option (\<lambda>seat. seat\<lparr>status := BOOKED\<rparr>) (Map_get al k)
      else Map_get al k)"
  by (induction cs arbitrary: al) (auto simp: Map_get_bookSeat option.map_comp comp_def)

lemma consistent_confirmBooking: "consistent m \<Longrightarrow> consistent (snd (confirmBooking m))"
  unfolding consistent_iff
  by (auto simp: confirmBooking_def distinct_fold_bookSeat Map_get_fold_bookSeat split: if_splits)

lemma consistent_managerCall: "consistent m \<Longrightarrow> consistent (managerCall m c)"
  by (cases c) (simp_all add: consistent_selectSeat consistent_deselectSeat consistent_confirmBooking)

lemma consistent_managerCalls: "consistent m \<Longrightarrow> consistent (managerCalls m cs)"
  unfolding managerCalls_def by (induction cs arbitrary: m) (simp_all add: consistent_managerCall)


lemma set_update_subset: "set (AList.update k v al) \<subseteq> insert (k, v) (set al)"
  by (induction al) auto

lemma unselected_initializeSeat:
  assumes "distinct (map fst al)" and "\<forall>p\<in>set al. status (snd p) \<noteq> SELECTED"
  shows "distinct (map fst (initializeSeat sid rows base r s b al)) \<and>
         (\<forall>p\<in>set (initializeSeat sid rows base r s b al). status (snd p) \<noteq> SELECTED)"
proof -
  obtain k seat where eq: "initializeSeat sid rows base r s b al = AList.update k seat al"
    and st: "status seat \<noteq> SELECTED"
    by (auto simp: initializeSeat_def Let_def Map_set_def)
  show ?thesis
    unfolding eq using assms st set_update_subset [of k seat al]
    by (auto simp: distinct_update)
qed

lemma unselected_row:
  assumes "distinct (map fst al)" and "\<forall>p\<in>set al. status (snd p) \<noteq> SELECTED"
  shows "distinct (map fst (fold (\<lambda>s. initializeSeat sid rows base r s (random r s)) ss al)) \<and>
         (\<forall>p\<in>set (fold (\<lambda>s. initializeSeat sid rows base r s (random r s)) ss al).
            status (snd p) \<noteq> SELECTED)"
  using assms
proof (induction ss arbitrary: al)
  case Nil
  then show ?case by simp
next
  case (Cons s ss)
  have "distinct (map fst (initializeSeat sid rows base r s (random r s) al)) \<and>
        (\<forall>p\<in>set (initializeSeat sid rows base r s (random r s) al). status (snd p) \<noteq> SELECTED)"
    using Cons.prems by (rule unselected_initializeSeat)
  then show ?case
    using Cons.IH [of "initializeSeat sid rows base r s (random r s) al"] by simp
qed

lemma unselected_rows:
  assumes "distinct (map fst al)" and "\<forall>p\<in>set al. status (snd p) \<noteq> SELECTED"
  shows "distinct (map fst (fold (\<lambda>r. fold (\<lambda>s. initializeSeat sid rows base r s (random r s)) ss) rs al)) \<and>
         (\<forall>p\<in>set (fold (\<lambda>r. fold (\<lambda>s. initializeSeat sid rows base r s (random r s)) ss) rs al).
            status (snd p) \<noteq> SELECTED)"
  using assms
proof (induction rs arbitrary: al)
  case Nil
  then show ?case by simp
next
  case (Cons r rs)
  have "distinct (map fst (fold (\<lambda>s. initializeSeat sid rows base r s (random r s)) ss al)) \<and>
        (\<forall>p\<in>set (fold (\<lambda>s. initializeSeat sid rows base r s (random r s)) ss al).
           status (snd p) \<noteq> SELECTED)"
    using Cons.prems by (rule unselected_row)
  then show ?case
    using Cons.IH [of "fold (\<lambda>s. initializeSeat sid rows base r s (random r s)) ss al"] by simp
qed

lemma consistent_initializeSeats:
  "consistent (initializeSeats SeatManager_new sid rows seatsPerRow base random)"
proof -
  define al where "al = fold (\<lambda>r. fold (\<lambda>s. initializeSeat sid rows base r s (random r s))
                [1..<Suc seatsPerRow]) [0..<rows] []"
  have "distinct (map fst al) \<and> (\<forall>p\<in>set al. status (snd p) \<noteq> SELECTED)"
    unfolding al_def by (rule unselected_rows) simp_all
  then have "distinct (map fst al)" and "filter (\<lambda>(code, seat). status seat = SELECTED) al = []"
    by (auto simp: filter_empty_conv)
  moreover have "initializeSeats SeatManager_new sid rows seatsPerRow base random =
                 \<lparr>seats = al, selectedSeats = []\<rparr>"
    by (simp add: initializeSeats_def SeatManager_new_def al_def)
  ultimately show ?thesis
    by (simp add: consistent_def selectedCodes_def)
qed

lemma foldl_plus_sum_list:
  "foldl (\<lambda>sum x. sum + f x) a xs = a + sum_list (map f xs)" for a :: rat
  by (induction xs arbitrary: a) simp_all

lemma map_filter_all_Some:
  "(\<And>x. x \<in> set xs \<Longrightarrow> f x \<noteq> None) \<Longrightarrow> List.map_filter f xs = map (\<lambda>x. the (f x)) xs"
  by (simp add: List.map_filter_def comp_def filter_id_conv)

lemma sum_list_filtered_values:
  assumes "distinct (map fst al)"
  shows "sum_list (map f (filter P (map snd al))) =
         sum (\<lambda>k. f (the (map_of al k))) {k. \<exists>v. map_of al k = Some v \<and> P v}"
proof -
  let ?F = "filter (\<lambda>(k, v). P v) al"
  have d: "distinct (map fst ?F)"
    using assms by (simp add: distinct_map_filter)
  have "filter P (map snd al) = map snd ?F"
    by (simp add: filter_map comp_def case_prod_unfold)
  then have "sum_list (map f (filter P (map snd al))) = sum_list (map (\<lambda>p. f (snd p)) ?F)"
    by (simp add: comp_def)
  also have "map (\<lambda>p. f (snd p)) ?F = map (\<lambda>k. f (the (map_of al k))) (map fst ?F)"
    using assms by (auto simp: comp_def)
  also have "sum_list \<dots> = sum (\<lambda>k. f (the (map_of al k))) (set (map fst ?F))"
    using d by (rule sum_list_distinct_conv_sum_set)
  also have "set (map fst ?F) = {k. \<exists>v. map_of al k = Some v \<and> P v}"
    using map_of_filter_keys [OF assms, of "\<lambda>(k, v). P v"] by simp
  finally show ?thesis .
qed

lemma total_of_consistent:
  assumes "consistent m"
  shows "getSelectedSeatsTotal m =
         sum_list (map price (filter (\<lambda>seat. status seat = SELECTED) (getAllSeats m)))"
proof -
  have d: "distinct (map fst (seats m))" and ds: "distinct (selectedSeats m)"
    and mem: "\<And>k. k \<in> set (selectedSeats m) \<longleftrightarrow>
                (\<exists>seat. Map_get (seats m) k = Some seat \<and> status seat = SELECTED)"
    using assms unfolding consistent_iff by auto
  have "getSelectedSeats m = map (\<lambda>k. the (Map_get (seats m) k)) (selectedSeats m)"
    unfolding getSelectedSeats_def by (rule map_filter_all_Some) (auto simp: mem)
  then have "getSelectedSeatsTotal m =
             sum_list (map (\<lambda>k. price (the (Map_get (seats m) k))) (selectedSeats m))"
    by (simp add: getSelectedSeatsTotal_def foldl_plus_sum_list comp_def)
  also have "\<dots> = sum (\<lambda>k. price (the (Map_get (seats m) k))) (set (selectedSeats m))"
    using ds by (rule sum_list_distinct_conv_sum_set)
  also have "set (selectedSeats m) =
             {k. \<exists>seat. map_of (seats m) k = Some seat \<and> status seat = SELECTED}"
    using mem by (auto simp: Map_get_def)
  also have "sum (\<lambda>k. price (the (Map_get (seats m) k))) \<dots> =
             sum_list (map price (filter (\<lambda>seat. status seat = SELECTED) (map snd (seats m))))"
    using sum_list_filtered_values [OF d, of price "\<lambda>seat. status seat = SELECTED"]
    by (simp add: Map_get_def)
  finally show ?thesis by (simp add: getAllSeats_def)
qed

text \<open>For a registry initialised once: after \<open>initializeSeats\<close> on a new registry,
  whatever the draws of the initialisation and whatever calls of \<open>selectSeat\<close>,
  \<open>deselectSeat\<close> and \<open>confirmBooking\<close> follow, a code is in the set of selected codes
  exactly when its seat's status is selected, and \<open>getSelectedSeatsTotal\<close> is the sum of
  the prices of the seats whose status is selected.\<close>

theorem selected_set_matches_status:
  "(\<forall>code. code \<in> set (selectedSeats
        (managerCalls (initializeSeats SeatManager_new showtimeId rows seatsPerRow basePrice random) cs))
      \<longleftrightarrow> (\<exists>seat. getSeat
        (managerCalls (initializeSeats SeatManager_new showtimeId rows seatsPerRow basePrice random) cs) code
           = Some seat \<and> status seat = SELECTED)) \<and>
   getSelectedSeatsTotal
     (managerCalls (initializeSeats SeatManager_new showtimeId rows seatsPerRow basePrice random) cs) =
   sum_list (map price (filter (\<lambda>seat. status seat = SELECTED)
     (getAllSeats
       (managerCalls (initializeSeats SeatManager_new showtimeId rows seatsPerRow basePrice random) cs))))"
proof -
  let ?m = "managerCalls (initializeSeats SeatManager_new showtimeId rows seatsPerRow basePrice random) cs"
  have c: "consistent ?m"
    by (rule consistent_managerCalls) (rule consistent_initializeSeats)
  then show ?thesis
    using total_of_consistent [OF c] by (simp add: consistent_iff getSeat_def)
qed


text \<open>Claim C9 does not hold of the code once a registry is initialised again while
  a seat is selected: \<open>initializeSeats\<close> writes over the seats and leaves the set of
  selected codes as it was, where \<open>confirmBooking\<close> empties the set when it takes seats
  out of the status selected. The first seat is then in the set while available, and
  the total is 150 where no seat has the status selected. The three operations do not
  repair it: after a \<open>deselectSeat\<close> of the first seat, which fails, and the selection of
  the second seat the total is 300 against 150.\<close>

theorem reinitialised_registry_disagrees:
  "selectedSeats reinitialisedManager = [''A1''] \<and>
   map status (getAllSeats reinitialisedManager) = [AVAILABLE, AVAILABLE] \<and>
   getSelectedSeatsTotal reinitialisedManager = 150 \<and>
   sum_list (map price (filter (\<lambda>seat. status seat = SELECTED)
     (getAllSeats reinitialisedManager))) = 0 \<and>
   selectedSeats (managerCalls reinitialisedManager [DeselectSeat ''A1'', SelectSeat ''A2''])
     = [''A1'', ''A2''] \<and>
   map status (getAllSeats
     (managerCalls reinitialisedManager [DeselectSeat ''A1'', SelectSeat ''A2'']))
     = [AVAILABLE, SELECTED] \<and>
   getSelectedSeatsTotal
     (managerCalls reinitialisedManager [DeselectSeat ''A1'', SelectSeat ''A2'']) = 300 \<and>
   sum_list (map price (filter (\<lambda>seat. status seat = SELECTED)
     (getAllSeats (managerCalls reinitialisedManager [DeselectSeat ''A1'', SelectSeat ''A2''])))) = 150"
  by code_simp

section \<open>Properties of the commands and the invoker\<close>





text \<open>Claim C4 does not hold of the code. A batch asking the small registry for
  its available and its booked seat selects the first; \<open>execute\<close> marks the command as
  executed and records the seat for the command's own \<open>undo\<close>, but returns false, so
  \<open>executeCommand\<close> does not push the command. The undo stack stays empty, the \<open>undo\<close>
  that follows returns false, and the seat stays selected.\<close>

theorem partial_batch_left_out_of_history:
  "fst (invokerCalls (SeatSelectionInvoker_new 50) [(ExecuteCommand 3, 1), (Undo, 2)] demoStore)
     = [False, False] \<and>
   undoStack (fst (snd (invokerCalls (SeatSelectionInvoker_new 50)
     [(ExecuteCommand 3, 1)] demoStore))) = [] \<and>
   commands (snd (snd (invokerCalls (SeatSelectionInvoker_new 50)
     [(ExecuteCommand 3, 1)] demoStore))) 3
     = SelectMultipleSeatsCommand 1 [''A1'', ''A2''] [''A1''] True (Some 1) \<and>
   map status (getAllSeats (managers demoStore 1)) = [AVAILABLE, BOOKED] \<and>
   map status (getAllSeats (managers (snd (snd (invokerCalls (SeatSelectionInvoker_new 50)
     [(ExecuteCommand 3, 1), (Undo, 2)] demoStore))) 1)) = [SELECTED, BOOKED] \<and>
   selectedSeats (managers (snd (snd (invokerCalls (SeatSelectionInvoker_new 50)
     [(ExecuteCommand 3, 1), (Undo, 2)] demoStore))) 1) = [''A1'']"
  by code_simp

text \<open>In general a batch that ends with fewer seats recorded than requested is
  dropped by the invoker, while the registry keeps every seat the batch selected.\<close>

lemma selectSeat_False: "selectSeat m k = (False, m') \<Longrightarrow> m' = m"
  by (auto simp: selectSeat_def split: option.splits if_splits)

lemma selectEach_selected:
  assumes "selectEach m codes acc = (m', successfullyCodes)"
    and "\<forall>k\<in>set acc. \<exists>seat. getSeat m k = Some seat \<and> status seat = SELECTED"
  shows "\<forall>k\<in>set successfullyCodes. \<exists>seat. getSeat m' k = Some seat \<and> status seat = SELECTED"
  using assms
proof (induction codes arbitrary: m acc)
  case Nil
  then show ?case by simp
next
  case (Cons code codes)
  show ?case
  proof (cases "fst (selectSeat m code)")
    case True
    then obtain m1 where first: "selectSeat m code = (True, m1)"
      by (cases "selectSeat m code") auto
    from first obtain seat where seat: "Map_get (seats m) code = Some seat"
      "seats m1 = Map_set code (seat\<lparr>status := SELECTED\<rparr>) (seats m)"
      by (rule selectSeat_True)
    have "\<forall>k\<in>set (acc @ [code]). \<exists>seat. getSeat m1 k = Some seat \<and> status seat = SELECTED"
      using Cons.prems(2) by (auto simp: getSeat_def seat(2))
    moreover have "selectEach m1 codes (acc @ [code]) = (m', successfullyCodes)"
      using Cons.prems(1) first by simp
    ultimately show ?thesis by (rule Cons.IH [rotated])
  next
    case False
    then obtain m1 where first: "selectSeat m code = (False, m1)"
      by (cases "selectSeat m code") auto
    then have "m1 = m" by (rule selectSeat_False)
    with Cons.prems(1) first have "selectEach m codes acc = (m', successfullyCodes)"
      by simp
    then show ?thesis using Cons.prems(2) by (rule Cons.IH)
  qed
qed

lemma partial_batch_dropped:
  assumes "commands st c = SelectMultipleSeatsCommand mgr seatCodes old False t"
    and "selectEach (managers st mgr) seatCodes [] = (m', successfullyCodes)"
    and "length successfullyCodes \<noteq> length seatCodes"
    and "executeCommand invoker c now st = (r, invoker', st')"
  shows "\<not> r \<and> invoker' = invoker \<and> managers st' mgr = m' \<and>
         commands st' c = SelectMultipleSeatsCommand mgr seatCodes successfullyCodes True (Some now) \<and>
         (\<forall>k\<in>set successfullyCodes.
            \<exists>seat. getSeat (managers st' mgr) k = Some seat \<and> status seat = SELECTED)"
proof -
  have "\<forall>k\<in>set successfullyCodes. \<exists>seat. getSeat m' k = Some seat \<and> status seat = SELECTED"
    by (rule selectEach_selected [OF assms(2)]) simp
  moreover have "\<not> r \<and> invoker' = invoker \<and> managers st' mgr = m' \<and>
      commands st' c = SelectMultipleSeatsCommand mgr seatCodes successfullyCodes True (Some now)"
    using assms by (auto simp: executeCommand_def execute_def)
  ultimately show ?thesis by simp
qed

text \<open>Claim C5 as first stated fails when there are more commands than the
  invoker keeps: with a history of size one, two selections followed by two calls of
  \<open>undo\<close> leave the first seat selected, the second \<open>undo\<close> returning false.\<close>

theorem undo_beyond_history_bound:
  "fst (invokerCalls (SeatSelectionInvoker_new 1)
         [(ExecuteCommand 0, 1), (ExecuteCommand 1, 2), (Undo, 3), (Undo, 4)] demoStore)
     = [True, True, True, False] \<and>
   selectedSeats (managers demoStore 0) = [] \<and>
   selectedSeats (managers (snd (snd (invokerCalls (SeatSelectionInvoker_new 1)
         [(ExecuteCommand 0, 1), (ExecuteCommand 1, 2), (Undo, 3), (Undo, 4)] demoStore))) 0)
     = [''A1'']"
  by code_simp

text \<open>On the registry initialised twice the set of selected codes holds a code whose
  seat is available. One selection of that seat and its \<open>undo\<close> restore the seats and
  take the code out of the set.\<close>

lemma stale_selection_not_restored:
  "fst (invokerCalls (SeatSelectionInvoker_new 50) [(ExecuteCommand 0, 1), (Undo, 2)] staleStore)
     = [True, True] \<and>
   selectedSeats (managers staleStore 0) = [''A1''] \<and>
   selectedSeats (managers (snd (snd (invokerCalls (SeatSelectionInvoker_new 50)
     [(ExecuteCommand 0, 1), (Undo, 2)] staleStore))) 0) = [] \<and>
   seats (managers (snd (snd (invokerCalls (SeatSelectionInvoker_new 50)
     [(ExecuteCommand 0, 1), (Undo, 2)] staleStore))) 0) = seats (managers staleStore 0)"
  by code_simp

lemma invokerCalls_append:
  "invokerCalls invoker (xs @ ys) st =
     (case invokerCalls invoker xs st of
        (rs, invoker', st') \<Rightarrow>
          (case invokerCalls invoker' ys st' of
             (rs', invoker'', st'') \<Rightarrow> (rs @ rs', invoker'', st'')))"
  by (induction xs arbitrary: invoker st) (auto split: prod.splits)

lemma selectAll_append:
  "selectAll m (ks @ ks') = (case selectAll m ks of None \<Rightarrow> None | Some m' \<Rightarrow> selectAll m' ks')"
  by (induction ks arbitrary: m) (auto split: prod.splits bool.splits)

lemma deselect_after_select:
  assumes "selectSeat m k = (True, m')" and "seats M = seats m'"
  shows "fst (deselectSeat M k)"
    and "seats (snd (deselectSeat M k)) = seats m"
    and "selectedSeats (snd (deselectSeat M k)) = Set_delete k (selectedSeats M)"
proof -
  from assms(1) obtain seat where seat: "Map_get (seats m) k = Some seat" "status seat = AVAILABLE"
    "seats m' = Map_set k (seat\<lparr>status := SELECTED\<rparr>) (seats m)"
    by (rule selectSeat_True)
  have restored: "seat\<lparr>status := AVAILABLE\<rparr> = seat"
    using seat(2) by simp
  have get: "Map_get (seats M) k = Some (seat\<lparr>status := SELECTED\<rparr>)"
    by (simp add: assms(2) seat(3))
  show "fst (deselectSeat M k)"
    by (simp add: deselectSeat_def get)
  show "seats (snd (deselectSeat M k)) = seats m"
    by (simp add: deselectSeat_def get assms(2) seat(3) restored Map_set_same seat(1))
  show "selectedSeats (snd (deselectSeat M k)) = Set_delete k (selectedSeats M)"
    by (simp add: deselectSeat_def get)
qed


lemma executeCommand_executed:
  "executed (commands st c) \<Longrightarrow> \<not> fst (executeCommand invoker c now st)"
  by (cases "commands st c") (simp_all add: executeCommand_def execute_def)

lemma executeCommand_select:
  assumes "commands st c = SelectSeatCommand mgr k e t"
    and "executeCommand invoker c now st = (True, invoker', st')"
  shows "selectSeat (managers st mgr) k = (True, managers st' mgr)"
    and "commands st' = (commands st)(c := SelectSeatCommand mgr k True (Some now))"
    and "undoStack invoker' =
           (if int (length (undoStack invoker @ [c])) > maxHistorySize invoker
            then tl (undoStack invoker @ [c]) else undoStack invoker @ [c])"
    and "maxHistorySize invoker' = maxHistorySize invoker"
  using assms
  by (auto simp: executeCommand_def execute_def Let_def split: if_splits prod.splits bool.splits)

lemma undo_select:
  assumes "undoStack invoker = s @ [c]"
    and "commands st c = SelectSeatCommand mgr k True t"
    and "fst (deselectSeat (managers st mgr) k)"
  shows "undo invoker st =
           (True,
            invoker\<lparr>undoStack := s, redoStack := redoStack invoker @ [c]\<rparr>,
            st\<lparr>managers := (managers st)(mgr := snd (deselectSeat (managers st mgr) k)),
               commands := (commands st)(c := SelectSeatCommand mgr k False t)\<rparr>)"
  using assms
  by (cases "deselectSeat (managers st mgr) k")
     (simp add: undo_def undoCommand_def Let_def)

lemma push_keeps_suffix:
  assumes "u = s @ cs" and "int (length (cs @ [c])) \<le> M"
    and "u' = (if int (length (u @ [c])) > M then tl (u @ [c]) else u @ [c])"
  shows "\<exists>s'. u' = s' @ cs @ [c]"
proof (cases "int (length (u @ [c])) > M")
  case True
  with assms(1,2) have "s \<noteq> []" by auto
  then have "tl (u @ [c]) = tl s @ cs @ [c]" by (simp add: assms(1))
  with True assms(3) show ?thesis by auto
next
  case False
  with assms(1,3) show ?thesis by auto
qed

lemma execute_selections:
  assumes "\<forall>x\<in>set sels. \<exists>e t. commands st (fst x) = SelectSeatCommand mgr (fst (snd x)) e t"
    and "invokerCalls invoker (map (\<lambda>x. (ExecuteCommand (fst x), snd (snd x))) sels) st
           = (rs, invoker1, st1)"
    and "\<forall>r\<in>set rs. r"
  shows "selectAll (managers st mgr) (map (\<lambda>x. fst (snd x)) sels) = Some (managers st1 mgr) \<and>
         distinct (map fst sels) \<and>
         (\<forall>x\<in>set sels. \<exists>t. commands st1 (fst x) = SelectSeatCommand mgr (fst (snd x)) True t) \<and>
         (\<forall>c. c \<notin> fst ` set sels \<longrightarrow> commands st1 c = commands st c) \<and>
         maxHistorySize invoker1 = maxHistorySize invoker \<and>
         (int (length sels) \<le> maxHistorySize invoker \<longrightarrow>
            (\<exists>s. undoStack invoker1 = s @ map fst sels))"
  using assms
proof (induction sels arbitrary: rs invoker1 st1 rule: rev_induct)
  case Nil
  then show ?case by simp
next
  case (snoc x sels)
  obtain c k now where x: "x = (c, k, now)" by (cases x) auto
  obtain rs' invoker' st' where
    run': "invokerCalls invoker (map (\<lambda>x. (ExecuteCommand (fst x), snd (snd x))) sels) st
             = (rs', invoker', st')"
    by (cases "invokerCalls invoker (map (\<lambda>x. (ExecuteCommand (fst x), snd (snd x))) sels) st") auto
  obtain r where step: "executeCommand invoker' c now st' = (r, invoker1, st1)"
    and rs: "rs = rs' @ [r]"
    using snoc.prems(2) run'
    by (auto simp: invokerCalls_append x split: prod.splits)
  have r: "r" and rs': "\<forall>r\<in>set rs'. r"
    using snoc.prems(3) rs by auto
  have kinds: "\<forall>x\<in>set sels. \<exists>e t. commands st (fst x) = SelectSeatCommand mgr (fst (snd x)) e t"
    using snoc.prems(1) by simp
  note IH = snoc.IH [OF kinds run' rs']
  from IH have sel: "selectAll (managers st mgr) (map (\<lambda>x. fst (snd x)) sels) = Some (managers st' mgr)"
    and dist: "distinct (map fst sels)"
    and marked: "\<forall>x\<in>set sels. \<exists>t. commands st' (fst x) = SelectSeatCommand mgr (fst (snd x)) True t"
    and frame: "\<forall>c. c \<notin> fst ` set sels \<longrightarrow> commands st' c = commands st c"
    and size: "maxHistorySize invoker' = maxHistorySize invoker"
    and stack: "int (length sels) \<le> maxHistorySize invoker \<longrightarrow>
                  (\<exists>s. undoStack invoker' = s @ map fst sels)"
    by blast+
  have fresh: "c \<notin> fst ` set sels"
  proof
    assume "c \<in> fst ` set sels"
    then obtain y where "y \<in> set sels" "fst y = c" by auto
    with marked have "executed (commands st' c)" by force
    then have "\<not> fst (executeCommand invoker' c now st')" by (rule executeCommand_executed)
    with step r show False by simp
  qed
  obtain e t where cmd: "commands st c = SelectSeatCommand mgr k e t"
    using snoc.prems(1) x by auto
  with fresh frame have cmd': "commands st' c = SelectSeatCommand mgr k e t" by simp
  from step r have step': "executeCommand invoker' c now st' = (True, invoker1, st1)" by simp
  note facts = executeCommand_select [OF cmd' step']
  have "selectAll (managers st mgr) (map (\<lambda>x. fst (snd x)) (sels @ [x])) = Some (managers st1 mgr)"
    by (simp add: selectAll_append sel x facts(1))
  moreover have "distinct (map fst (sels @ [x]))"
    using dist fresh by (simp add: x)
  moreover have "\<forall>y\<in>set (sels @ [x]).
      \<exists>t. commands st1 (fst y) = SelectSeatCommand mgr (fst (snd y)) True t"
    using marked fresh by (auto simp: facts(2) x)
  moreover have "\<forall>d. d \<notin> fst ` set (sels @ [x]) \<longrightarrow> commands st1 d = commands st d"
    using frame by (auto simp: facts(2) x)
  moreover have "maxHistorySize invoker1 = maxHistorySize invoker"
    using facts(4) size by simp
  moreover have "int (length (sels @ [x])) \<le> maxHistorySize invoker \<longrightarrow>
      (\<exists>s. undoStack invoker1 = s @ map fst (sels @ [x]))"
  proof
    assume bound: "int (length (sels @ [x])) \<le> maxHistorySize invoker"
    then obtain s where s: "undoStack invoker' = s @ map fst sels"
      using stack by auto
    have "int (length (map fst sels @ [c])) \<le> maxHistorySize invoker'"
      using bound size by simp
    from push_keeps_suffix [OF s this facts(3)]
    show "\<exists>s. undoStack invoker1 = s @ map fst (sels @ [x])"
      by (simp add: x)
  qed
  ultimately show ?case by blast
qed


lemma selectAll_snoc:
  assumes "selectAll m0 (ks @ [k]) = Some m1"
  obtains m' where "selectAll m0 ks = Some m'" "selectSeat m' k = (True, m1)"
  using assms
  by (auto simp: selectAll_append split: option.splits prod.splits bool.splits)

lemma undo_selections:
  assumes "undoStack invoker1 = s @ map fst sels"
    and "distinct (map fst sels)"
    and "\<forall>x\<in>set sels. \<exists>t. commands st1 (fst x) = SelectSeatCommand mgr (fst (snd x)) True t"
    and "selectAll m0 (map (\<lambda>x. fst (snd x)) sels) = Some m1"
    and "seats (managers st1 mgr) = seats m1"
  shows "\<exists>invoker2 st2.
           invokerCalls invoker1 (replicate (length sels) (Undo, now)) st1
             = (replicate (length sels) True, invoker2, st2) \<and>
           seats (managers st2 mgr) = seats m0 \<and>
           selectedSeats (managers st2 mgr)
             = fold Set_delete (rev (map (\<lambda>x. fst (snd x)) sels)) (selectedSeats (managers st1 mgr))"
  using assms
proof (induction sels arbitrary: invoker1 st1 m1 rule: rev_induct)
  case Nil
  then show ?case by simp
next
  case (snoc x sels)
  obtain c k t0 where x: "x = (c, k, t0)" by (cases x) auto
  from snoc.prems(4) obtain m' where
    sel': "selectAll m0 (map (\<lambda>x. fst (snd x)) sels) = Some m'"
    and last: "selectSeat m' k = (True, m1)"
    by (auto simp: x elim: selectAll_snoc)
  obtain t where cmd: "commands st1 c = SelectSeatCommand mgr k True t"
    using snoc.prems(3) x by auto
  have top: "undoStack invoker1 = (s @ map fst sels) @ [c]"
    using snoc.prems(1) by (simp add: x)
  note des = deselect_after_select [OF last snoc.prems(5)]
  define invoker' where
    "invoker' = invoker1\<lparr>undoStack := s @ map fst sels, redoStack := redoStack invoker1 @ [c]\<rparr>"
  define st' where
    "st' = st1\<lparr>managers := (managers st1)(mgr := snd (deselectSeat (managers st1 mgr) k)),
              commands := (commands st1)(c := SelectSeatCommand mgr k False t)\<rparr>"
  have first: "undo invoker1 st1 = (True, invoker', st')"
    unfolding invoker'_def st'_def by (rule undo_select [OF top cmd des(1)])
  have fresh: "c \<notin> fst ` set sels"
    using snoc.prems(2) by (simp add: x)
  have a1: "undoStack invoker' = s @ map fst sels"
    by (simp add: invoker'_def)
  have a2: "distinct (map fst sels)"
    using snoc.prems(2) by simp
  have a3: "\<forall>y\<in>set sels. \<exists>t. commands st' (fst y) = SelectSeatCommand mgr (fst (snd y)) True t"
    using snoc.prems(3) fresh by (auto simp: st'_def)
  have a5: "seats (managers st' mgr) = seats m'"
    using des(2) by (simp add: st'_def)
  from snoc.IH [OF a1 a2 a3 sel' a5] obtain invoker2 st2 where
    rest: "invokerCalls invoker' (replicate (length sels) (Undo, now)) st'
             = (replicate (length sels) True, invoker2, st2)"
    and seats2: "seats (managers st2 mgr) = seats m0"
    and selected2: "selectedSeats (managers st2 mgr)
             = fold Set_delete (rev (map (\<lambda>x. fst (snd x)) sels)) (selectedSeats (managers st' mgr))"
    by blast
  have "invokerCalls invoker1 (replicate (length (sels @ [x])) (Undo, now)) st1
          = (replicate (length (sels @ [x])) True, invoker2, st2)"
    by (simp add: first rest)
  moreover have "selectedSeats (managers st2 mgr)
      = fold Set_delete (rev (map (\<lambda>x. fst (snd x)) (sels @ [x]))) (selectedSeats (managers st1 mgr))"
    using selected2 des(3) by (simp add: st'_def x)
  ultimately show ?case using seats2 by blast
qed

lemma selectAll_selectedSeats:
  "selectAll m ks = Some m1 \<Longrightarrow> selectedSeats m1 = fold Set_add ks (selectedSeats m)"
proof (induction ks arbitrary: m)
  case Nil
  then show ?case by simp
next
  case (Cons k ks)
  then obtain m' where "selectSeat m k = (True, m')" "selectAll m' ks = Some m1"
    by (auto split: prod.splits bool.splits)
  then show ?case
    using Cons.IH [of m'] by (auto elim: selectSeat_True)
qed

lemma selectAll_available:
  "selectAll m ks = Some m1 \<Longrightarrow> k \<in> set ks \<Longrightarrow>
     \<exists>seat. Map_get (seats m) k = Some seat \<and> status seat = AVAILABLE"
proof (induction ks arbitrary: m)
  case Nil
  then show ?case by simp
next
  case (Cons a ks)
  then obtain m' where first: "selectSeat m a = (True, m')" and rest: "selectAll m' ks = Some m1"
    by (auto split: prod.splits bool.splits)
  from first obtain seat where seat: "Map_get (seats m) a = Some seat" "status seat = AVAILABLE"
    "seats m' = Map_set a (seat\<lparr>status := SELECTED\<rparr>) (seats m)"
    by (rule selectSeat_True)
  show ?case
  proof (cases "k = a")
    case True
    with seat show ?thesis by simp
  next
    case False
    with Cons.prems(2) have "k \<in> set ks" by simp
    from Cons.IH [OF rest this] False show ?thesis by (simp add: seat(3))
  qed
qed

lemma fold_Set_delete: "fold Set_delete ks xs = filter (\<lambda>x. x \<notin> set ks) xs"
proof (induction ks arbitrary: xs)
  case Nil
  then show ?case by simp
next
  case (Cons k ks)
  have "filter (\<lambda>x. x \<notin> set ks) (Set_delete k xs) = filter (\<lambda>x. x \<notin> set (k # ks)) xs"
    unfolding Set_delete_def filter_filter by (rule filter_cong) auto
  then show ?case by (simp add: Cons.IH)
qed

lemma fold_Set_add: "\<exists>zs. fold Set_add ks xs = xs @ zs \<and> set zs \<subseteq> set ks"
proof (induction ks arbitrary: xs)
  case Nil
  then show ?case by simp
next
  case (Cons k ks)
  obtain zs where zs: "fold Set_add ks (Set_add k xs) = Set_add k xs @ zs" "set zs \<subseteq> set ks"
    using Cons.IH [of "Set_add k xs"] by blast
  show ?case
  proof (cases "k \<in> set xs")
    case True
    then have "Set_add k xs = xs" by (simp add: Set_add_def)
    with zs have "fold Set_add (k # ks) xs = xs @ zs" by simp
    moreover have "set zs \<subseteq> set (k # ks)" using zs(2) by auto
    ultimately show ?thesis by blast
  next
    case False
    then have "Set_add k xs = xs @ [k]" by (simp add: Set_add_def)
    with zs have "fold Set_add (k # ks) xs = xs @ (k # zs)" by simp
    moreover have "set (k # zs) \<subseteq> set (k # ks)" using zs(2) by auto
    ultimately show ?thesis by blast
  qed
qed

lemma delete_after_add:
  "fold Set_delete (rev ks) (fold Set_add ks xs) = filter (\<lambda>x. x \<notin> set ks) xs"
proof -
  obtain zs where zs: "fold Set_add ks xs = xs @ zs" "set zs \<subseteq> set ks"
    using fold_Set_add [of ks xs] by blast
  have "filter (\<lambda>x. x \<notin> set ks) zs = []"
    using zs(2) by (auto simp: filter_empty_conv)
  then show ?thesis
    by (simp add: fold_Set_delete zs(1))
qed


text \<open>Claim C5, as amended. Let \<open>N\<close> single-seat select commands on one registry
  all execute successfully through \<open>executeCommand\<close>, with \<open>N\<close> not above the
  invoker's \<open>maxHistorySize\<close>. Then the \<open>N\<close> calls of \<open>undo\<close> that follow all return
  true and the map of seats is the one before the sequence, so each of the \<open>N\<close> seats
  is available with the price and category it had. The set of selected codes is the one
  before the sequence without the \<open>N\<close> codes: it is empty again if it was empty, and
  if the set agreed with the statuses before the sequence the whole registry is as it
  was.\<close>

theorem undo_restores_selections:
  assumes "\<forall>(c, k, now)\<in>set sels. \<exists>e t. commands st c = SelectSeatCommand mgr k e t"
    and "invokerCalls invoker (map (\<lambda>(c, k, now). (ExecuteCommand c, now)) sels) st
           = (rs, invoker1, st1)"
    and "\<forall>r\<in>set rs. r"
    and "int (length sels) \<le> maxHistorySize invoker"
    and "invokerCalls invoker1 (replicate (length sels) (Undo, now')) st1 = (rs', invoker2, st2)"
  shows "rs' = replicate (length sels) True \<and>
         seats (managers st2 mgr) = seats (managers st mgr) \<and>
         selectedSeats (managers st2 mgr)
           = filter (\<lambda>k. k \<notin> set (map (\<lambda>(c, k, now). k) sels)) (selectedSeats (managers st mgr)) \<and>
         (selectedSeats (managers st mgr) = [] \<longrightarrow> selectedSeats (managers st2 mgr) = []) \<and>
         (consistent (managers st mgr) \<longrightarrow> managers st2 mgr = managers st mgr) \<and>
         (\<forall>(c, k, now)\<in>set sels.
            \<exists>seat. getSeat (managers st mgr) k = Some seat \<and> status seat = AVAILABLE \<and>
                   getSeat (managers st2 mgr) k = Some seat)"
proof -
  let ?codes = "map (\<lambda>x. fst (snd x)) sels"
  have codes: "map (\<lambda>(c, k, now). k) sels = ?codes"
    by (simp add: case_prod_unfold)
  have kinds: "\<forall>x\<in>set sels. \<exists>e t. commands st (fst x) = SelectSeatCommand mgr (fst (snd x)) e t"
    using assms(1) by (auto simp: case_prod_unfold)
  have run: "invokerCalls invoker (map (\<lambda>x. (ExecuteCommand (fst x), snd (snd x))) sels) st
               = (rs, invoker1, st1)"
    using assms(2) by (simp add: case_prod_unfold)
  note A = execute_selections [OF kinds run assms(3)]
  from A have sel: "selectAll (managers st mgr) ?codes = Some (managers st1 mgr)"
    and dist: "distinct (map fst sels)"
    and marked: "\<forall>x\<in>set sels. \<exists>t. commands st1 (fst x) = SelectSeatCommand mgr (fst (snd x)) True t"
    by blast+
  from A assms(4) obtain s where stack: "undoStack invoker1 = s @ map fst sels"
    by blast
  from undo_selections [OF stack dist marked sel refl, of now'] assms(5)
  have results: "rs' = replicate (length sels) True"
    and seats2: "seats (managers st2 mgr) = seats (managers st mgr)"
    and selected2: "selectedSeats (managers st2 mgr)
                      = fold Set_delete (rev ?codes) (selectedSeats (managers st1 mgr))"
    by auto
  have selected: "selectedSeats (managers st2 mgr)
                    = filter (\<lambda>k. k \<notin> set ?codes) (selectedSeats (managers st mgr))"
    using selected2 selectAll_selectedSeats [OF sel] by (simp add: delete_after_add)
  have avail: "\<exists>seat. Map_get (seats (managers st mgr)) k = Some seat \<and> status seat = AVAILABLE"
    if "k \<in> set ?codes" for k
    using selectAll_available [OF sel that] .
  have same: "managers st2 mgr = managers st mgr" if "consistent (managers st mgr)"
  proof -
    have "k \<notin> set (selectedSeats (managers st mgr))" if "k \<in> set ?codes" for k
      using avail [OF that] \<open>consistent (managers st mgr)\<close> unfolding consistent_iff by auto
    then have "filter (\<lambda>k. k \<notin> set ?codes) (selectedSeats (managers st mgr))
                 = selectedSeats (managers st mgr)"
      by (auto simp: filter_id_conv)
    with selected seats2 show ?thesis by simp
  qed
  have each: "\<forall>(c, k, now)\<in>set sels.
      \<exists>seat. getSeat (managers st mgr) k = Some seat \<and> status seat = AVAILABLE \<and>
             getSeat (managers st2 mgr) k = Some seat"
  proof (clarify)
    fix c k now assume "(c, k, now) \<in> set sels"
    then have "k \<in> set ?codes" by force
    from avail [OF this] show "\<exists>seat. getSeat (managers st mgr) k = Some seat \<and>
        status seat = AVAILABLE \<and> getSeat (managers st2 mgr) k = Some seat"
      by (auto simp: getSeat_def seats2)
  qed
  show ?thesis
    using results seats2 selected same each by (simp add: codes)
qed


lemma demoSelected_results: "fst demoSelected = [True, True]"
  by code_simp

lemma demoUndone_results: "fst demoUndone = [True, True]"
  by code_simp

theorem undo_restores_selections_witness:
  "fst demoSelected = [True, True] \<and>
   fst demoUndone = [True, True] \<and>
   consistent (managers demoStore 0) \<and>
   managers (snd (snd demoUndone)) 0 = managers demoStore 0 \<and>
   selectedSeats (managers (snd (snd demoUndone)) 0) = []"
proof -
  have kinds: "\<forall>(c, k, now)\<in>set [(0, ''A1'', 1), (1, ''A2'', 2)].
                 \<exists>e t. commands demoStore c = SelectSeatCommand 0 k e t"
    by (auto simp: demoStore_def)
  have run: "invokerCalls (SeatSelectionInvoker_new defaultMaxHistorySize)
               (map (\<lambda>(c, k, now). (ExecuteCommand c, now)) [(0, ''A1'', 1), (1, ''A2'', 2)]) demoStore
             = (fst demoSelected, fst (snd demoSelected), snd (snd demoSelected))"
    by (simp add: demoSelected_def)
  have ok: "\<forall>r\<in>set (fst demoSelected). r"
    by (simp add: demoSelected_results)
  have bound: "int (length [(0::nat, ''A1'', 1::nat), (1, ''A2'', 2)])
                 \<le> maxHistorySize (SeatSelectionInvoker_new defaultMaxHistorySize)"
    by (simp add: SeatSelectionInvoker_new_def defaultMaxHistorySize_def)
  have undos: "invokerCalls (fst (snd demoSelected))
                 (replicate (length [(0::nat, ''A1'', 1::nat), (1, ''A2'', 2)]) (Undo, 3))
                 (snd (snd demoSelected))
               = (fst demoUndone, fst (snd demoUndone), snd (snd demoUndone))"
    by (simp add: demoUndone_def numeral_2_eq_2)
  have c: "consistent (managers demoStore 0)"
    by (simp add: demoStore_def demoManager_def consistent_initializeSeats)
  have empty: "selectedSeats (managers demoStore 0) = []"
    by (simp add: demoStore_def demoManager_def initializeSeats_def SeatManager_new_def)
  from undo_restores_selections [OF kinds run ok bound undos] c empty
  show ?thesis
    by (simp add: demoSelected_results demoUndone_results)
qed

end
